theory Spec2Isabelle
  imports Complex_Main
begin

section \<open>Strings\<close>

text \<open>
  JavaScript strings are modelled as \<^typ>\<open>string\<close>, one \<^typ>\<open>char\<close> per code unit.
\<close>

text \<open>\<open>s.startsWith(k)\<close>\<close>

fun startsWith :: "string \<Rightarrow> string \<Rightarrow> bool" where
  "startsWith s [] = True"
| "startsWith [] (k # ks) = False"
| "startsWith (c # s) (k # ks) = (c = k \<and> startsWith s ks)"

text \<open>\<open>s.includes(k)\<close>: \<open>k\<close> occurs in \<open>s\<close> as a contiguous run; the empty \<open>k\<close> always does.\<close>

fun includes_str :: "string \<Rightarrow> string \<Rightarrow> bool" where
  "includes_str [] k = (k = [])"
| "includes_str (c # s) k = (startsWith (c # s) k \<or> includes_str s k)"

section \<open>Data model (types/enhanced-types.ts)\<close>

text \<open>
  Numbers that count or measure time are integers here (\<open>depth\<close>,
  \<open>maxLinksToFollow\<close>, timestamps in milliseconds); scores are reals. An optional
  field is an \<open>option\<close>.
\<close>

record ExtractedLink =
  link_url :: string
  link_text :: string
  link_context :: string
  isRelevant :: "bool option"
  relevanceScore :: "real option"
  visited :: "bool option"

record StructuredData =
  tables :: "string list"
  lists :: "string list"
  hierarchies :: "string list"
  keyValuePairs :: "(string \<times> string) list"

datatype OutputFormat = Markdown | Html | Text

text \<open>
  \<open>WebpageContent\<close> has the fields of the object \<open>extractContent\<close> builds; the nested
  \<open>stats\<close>, \<open>content_preview\<close> and \<open>structure\<close> objects are flattened.
\<close>

record WebpageContent =
  url :: string
  title :: string
  description :: string
  content :: string
  format :: OutputFormat
  meta_tags :: "(string \<times> string) list"
  word_count :: nat
  approximate_chars :: nat
  first_500_chars :: string
  summary :: string
  headings :: "string list"

record EnhancedWebpageContent = WebpageContent +
  links :: "ExtractedLink list"
  images :: "string list"
  structuredData :: StructuredData
  lastVisited :: "int option"
  sourceCredibility :: "(real \<times> string list) option"

record BrowsingHistoryPage =
  h_url :: string
  h_title :: string
  visitTime :: int
  h_summary :: string
  h_keywords :: "string list"
  h_parentUrl :: "string option"

record BrowsingSession =
  session_id :: string
  startTime :: int
  lastActivityTime :: int
  topic :: "string option"
  currentUrl :: "string option"
  history :: "BrowsingHistoryPage list"
  bookmarks :: "string list"
  sessionSummary :: string
  researchQuestions :: "string list"

record NavigationOptions =
  opt_followLinks :: bool
  maxDepth :: int
  relevanceThreshold :: real
  filterByKeywords :: "string list option"
  excludeDomains :: "string list option"
  includeDomains :: "string list option"

record FollowLinksParams =
  p_url :: string
  p_keywords :: "string list option"
  maxLinksToFollow :: int
  depth :: int
  stayOnDomain :: "bool option"

record PageVisited =
  pv_url :: string
  pv_title :: string
  relevance :: real
  pv_summary :: string

record FollowLinksResult =
  startUrl :: string
  pagesVisited :: "PageVisited list"
  navigationPath :: "string list"
  relatedTopics :: "string list"

section \<open>Platform\<close>

text \<open>
  A thrown value is an \<open>Error\<close> with its message, or an error of the HTTP client, which
  \<open>axios.isAxiosError\<close> recognises. A function that can throw returns \<open>thrown + 'a\<close>.
\<close>

datatype thrown = Error string | AxiosError string

text \<open>What the enhancement step reads off the page when nothing throws.\<close>

record Enhancements =
  enh_links :: "ExtractedLink list"
  enh_images :: "string list"
  enh_structuredData :: StructuredData
  enh_credibility :: "real \<times> string list"

text \<open>
  The libraries and the outside world are parameters. \<open>'w\<close> is the state of the world
  (the clock, the network, the random source); a call that waits or draws returns the world
  after it.
  \<^item> \<open>urlHostname u\<close>: \<open>new URL(u).hostname\<close>, \<open>None\<close> where the constructor throws;
  \<^item> \<open>urlResolve rel base\<close>: \<open>new URL(rel, base).href\<close>, \<open>None\<close> where it throws;
  \<^item> \<open>dateNow\<close>: \<open>Date.now()\<close>, in milliseconds;
  \<^item> \<open>uuidv4\<close>: a fresh identifier;
  \<^item> \<open>axiosGet\<close>: the body \<open>axios.get\<close> resolves to, or what it throws (timeout and
    size limit included);
  \<^item> \<open>buildContent url format body\<close>: lines 771 to 859 of \<open>extractContent\<close>, the
    cheerio, JSDOM, Readability and Turndown pipeline from the response body to the
    \<open>WebpageContent\<close>, or what it throws;
  \<^item> \<open>fetchEnhancements base url\<close>: the body of the \<open>try\<close> block of
    \<open>enhanceContent\<close> (the second fetch and the parsing for structured data, links,
    images and credibility), or what it throws;
  \<^item> \<open>regexWordCount keyword text\<close>: the number of matches of
    \<open>new RegExp(`\\b${keyword}\\b`, 'gi')\<close> in \<open>text\<close>, or what the constructor throws;
  \<^item> \<open>splitSentences\<close>: \<open>s.split(/(?<=[.!?])\s+/)\<close>;
  \<^item> \<open>stripPunctuation\<close>: \<open>s.replace(/[^\w\s]/g, '')\<close>;
  \<^item> \<open>splitWhitespace\<close>: \<open>s.split(/\s+/)\<close>;
  \<^item> \<open>toLowerCase\<close>: \<open>s.toLowerCase()\<close>, on every letter the platform knows.
\<close>

record 'w platform =
  urlHostname :: "string \<Rightarrow> string option"
  urlResolve :: "string \<Rightarrow> string \<Rightarrow> string option"
  dateNow :: "'w \<Rightarrow> int"
  uuidv4 :: "'w \<Rightarrow> string \<times> 'w"
  axiosGet :: "string \<Rightarrow> 'w \<Rightarrow> (thrown + string) \<times> 'w"
  buildContent :: "string \<Rightarrow> OutputFormat \<Rightarrow> string \<Rightarrow> thrown + WebpageContent"
  fetchEnhancements :: "WebpageContent \<Rightarrow> string \<Rightarrow> 'w \<Rightarrow> (thrown + Enhancements) \<times> 'w"
  regexWordCount :: "string \<Rightarrow> string \<Rightarrow> thrown + nat"
  splitSentences :: "string \<Rightarrow> string list"
  stripPunctuation :: "string \<Rightarrow> string"
  splitWhitespace :: "string \<Rightarrow> string list"
  toLowerCase :: "string \<Rightarrow> string"

section \<open>Link relevance (NavigationService.calculateLinkRelevance)\<close>

text \<open>
  \<open>new URL(u).hostname\<close> and \<open>toLowerCase\<close> belong to the platform \<open>P\<close>. Scores
  are JavaScript numbers; they are modelled as reals, so the arithmetic below is exact.
\<close>

text \<open>\<open>`${link.text} ${link.context || ''}`.toLowerCase()\<close>\<close>

definition linkTextOf :: "'w platform \<Rightarrow> ExtractedLink \<Rightarrow> string" where
  "linkTextOf P link = toLowerCase P (link_text link @ '' '' @ link_context link)"

text \<open>The body of \<open>keywords.forEach\<close>: the running score after one more keyword.\<close>

definition keywordStep ::
  "'w platform \<Rightarrow> ExtractedLink \<Rightarrow> string \<Rightarrow> real \<Rightarrow> string \<Rightarrow> real" where
  "keywordStep P link linkText score keyword =
     (let keywordLower = toLowerCase P keyword;
          s1 = (if includes_str linkText keywordLower then score + 0.3 else score);
          s2 = (if includes_str (toLowerCase P (link_url link)) keywordLower then s1 + 0.2 else s1);
          s3 = (if link_context link \<noteq> []
                   \<and> includes_str (toLowerCase P (link_context link)) keywordLower
                then s2 + 0.2 else s2)
      in s3)"

definition sameDomain :: "'w platform \<Rightarrow> string \<Rightarrow> string \<Rightarrow> bool" where
  "sameDomain P linkUrl parentUrl =
     (case urlHostname P linkUrl of
        None \<Rightarrow> False
      | Some linkDomain \<Rightarrow>
          (case urlHostname P parentUrl of
             None \<Rightarrow> False
           | Some parentDomain \<Rightarrow> linkDomain = parentDomain))"

definition calculateLinkRelevance ::
  "'w platform \<Rightarrow> ExtractedLink \<Rightarrow> string list \<Rightarrow> string \<Rightarrow> real" where
  "calculateLinkRelevance P link keywords parentUrl =
     (if keywords = [] then 0.6
      else
        let linkText = linkTextOf P link;
            score0 = foldl (keywordStep P link linkText) 0 keywords;
            score1 = (if sameDomain P (link_url link) parentUrl then score0 + 0.1 else score0);
            score2 = (if length (link_text link) < 5 then score1 * 0.5 else score1);
            score3 = (if length (link_text link) > 20 then score2 + 0.1 else score2)
        in min (score3 / real (length keywords)) 1.0)"

text \<open>
  The reference formula of section 4.3 of the specification, written from its words: the
  keyword contributions are averaged and clamped first, and the domain, short-text and
  long-text adjustments are applied to that mean.
\<close>

definition clamp01 :: "real \<Rightarrow> real" where
  "clamp01 x = max 0 (min 1 x)"

definition keywordContribution :: "'w platform \<Rightarrow> ExtractedLink \<Rightarrow> string \<Rightarrow> real" where
  "keywordContribution P link keyword =
     (let k = toLowerCase P keyword in
        (if includes_str (linkTextOf P link) k then 0.3 else 0)
      + (if includes_str (toLowerCase P (link_url link)) k then 0.2 else 0)
      + (if link_context link \<noteq> [] \<and> includes_str (toLowerCase P (link_context link)) k
         then 0.2 else 0))"

definition specLinkRelevance ::
  "'w platform \<Rightarrow> ExtractedLink \<Rightarrow> string list \<Rightarrow> string \<Rightarrow> real" where
  "specLinkRelevance P link keywords parentUrl =
     (if keywords = [] then 0.6
      else
        let base = clamp01 (sum_list (map (keywordContribution P link) keywords)
                            / real (length keywords));
            withDomain = (if sameDomain P (link_url link) parentUrl then base + 0.1 else base);
            withShort = (if length (link_text link) < 5 then withDomain * 0.5 else withDomain);
            withLong = (if length (link_text link) > 20 then withShort + 0.1 else withShort)
        in clamp01 withLong)"

text \<open>
  What the code computes, in closed form: the same contributions and adjustments, with the
  division by the keyword count applied last, to the adjusted total.
\<close>

definition totalLinkRelevance ::
  "'w platform \<Rightarrow> ExtractedLink \<Rightarrow> string list \<Rightarrow> string \<Rightarrow> real" where
  "totalLinkRelevance P link keywords parentUrl =
     (if keywords = [] then 0.6
      else
        let total = sum_list (map (keywordContribution P link) keywords);
            withDomain = (if sameDomain P (link_url link) parentUrl then total + 0.1 else total);
            withShort = (if length (link_text link) < 5 then withDomain * 0.5 else withDomain);
            withLong = (if length (link_text link) > 20 then withShort + 0.1 else withShort)
        in min (withLong / real (length keywords)) 1)"

section \<open>Content cache (ContentExtractor)\<close>

record ContentCacheEntry =
  timestamp :: int
  entry_content :: WebpageContent

text \<open>
  A JavaScript \<open>Map\<close> iterates in insertion order, and the eviction below depends on that
  order, so the map is an association list: \<open>set\<close> on a present key replaces the value
  in place, \<open>set\<close> on a new key appends, \<open>delete\<close> removes the key's entry.
\<close>

fun mapSet :: "'k \<Rightarrow> 'v \<Rightarrow> ('k \<times> 'v) list \<Rightarrow> ('k \<times> 'v) list" where
  "mapSet k v [] = [(k, v)]"
| "mapSet k v ((k', v') # m) = (if k' = k then (k, v) # m else (k', v') # mapSet k v m)"

fun mapDelete :: "'k \<Rightarrow> ('k \<times> 'v) list \<Rightarrow> ('k \<times> 'v) list" where
  "mapDelete k [] = []"
| "mapDelete k ((k', v') # m) = (if k' = k then m else (k', v') # mapDelete k m)"

text \<open>
  The mutable state of the services: the extractor's cache, the session store, and the
  world. The timers that sweep expired sessions are not modelled: a call runs from start to
  end with nothing in between. \<open>requests\<close> is not in the source: it lists the URLs handed to \<open>axios.get\<close>,
  in order, so that a statement can count network fetches.
\<close>

record 'w services =
  contentCache :: "(string \<times> ContentCacheEntry) list"
  sessions :: "string \<rightharpoonup> BrowsingSession"
  world :: 'w
  requests :: "string list"

definition cacheTTL :: int where
  "cacheTTL = 30 * 60 * 1000"

definition maxCacheEntries :: nat where
  "maxCacheEntries = 50"

definition formatName :: "OutputFormat \<Rightarrow> string" where
  "formatName f = (case f of Markdown \<Rightarrow> ''markdown'' | Html \<Rightarrow> ''html'' | Text \<Rightarrow> ''text'')"

definition isValidUrl :: "'w platform \<Rightarrow> string \<Rightarrow> bool" where
  "isValidUrl P u = (urlHostname P u \<noteq> None)"

definition generateCacheKey :: "string \<Rightarrow> OutputFormat \<Rightarrow> string" where
  "generateCacheKey u f = u @ ''|'' @ formatName f"

definition isCacheValid :: "'w platform \<Rightarrow> 'w \<Rightarrow> ContentCacheEntry \<Rightarrow> bool" where
  "isCacheValid P w entry = (dateNow P w - timestamp entry < cacheTTL)"

text \<open>
  \<open>Array.from(entries).sort((a, b) => a[1].timestamp - b[1].timestamp)[0][0]\<close>: the sort
  is stable, so among the entries with the least timestamp the first in insertion order
  comes first.
\<close>

definition oldestKey :: "(string \<times> ContentCacheEntry) list \<Rightarrow> string" where
  "oldestKey m = fst (hd (sort_key (\<lambda>e. timestamp (snd e)) m))"

definition cacheContent ::
  "'w platform \<Rightarrow> string \<Rightarrow> OutputFormat \<Rightarrow> WebpageContent \<Rightarrow> 'w services \<Rightarrow> 'w services" where
  "cacheContent P u f c st =
     (let cacheKey = generateCacheKey u f;
          m = mapSet cacheKey \<lparr>timestamp = dateNow P (world st), entry_content = c\<rparr>
                (contentCache st)
      in if length m > maxCacheEntries
         then st\<lparr>contentCache := mapDelete (oldestKey m) m\<rparr>
         else st\<lparr>contentCache := m\<rparr>)"

text \<open>The \<open>catch\<close> of \<open>extractContent\<close>: an HTTP client error is rewrapped, anything else rethrown.\<close>

definition rethrow :: "thrown \<Rightarrow> thrown" where
  "rethrow e = (case e of AxiosError msg \<Rightarrow> Error (''Failed to fetch webpage: '' @ msg)
                        | Error msg \<Rightarrow> Error msg)"

text \<open>
  \<open>contentCache.get(cacheKey)\<close> with the test \<open>cachedContent && isCacheValid(cachedContent)\<close>:
  the document of the entry under the key when there is one and it has not expired.
\<close>

definition cacheLookup :: "'w platform \<Rightarrow> string \<Rightarrow> OutputFormat \<Rightarrow> 'w services \<Rightarrow> WebpageContent option" where
  "cacheLookup P u f st =
     (case map_of (contentCache st) (generateCacheKey u f) of
        None \<Rightarrow> None
      | Some cached \<Rightarrow> if isCacheValid P (world st) cached then Some (entry_content cached) else None)"

definition extractContent ::
  "'w platform \<Rightarrow> string \<Rightarrow> OutputFormat \<Rightarrow> 'w services \<Rightarrow> (thrown + WebpageContent) \<times> 'w services" where
  "extractContent P u f st =
     (if \<not> isValidUrl P u then (Inl (Error ''Invalid URL provided''), st)
      else
        case cacheLookup P u f st of
          Some c \<Rightarrow> (Inr c, st)
        | None \<Rightarrow>
            (case axiosGet P u (world st) of
               (Inl e, w1) \<Rightarrow> (Inl (rethrow e), st\<lparr>world := w1, requests := requests st @ [u]\<rparr>)
             | (Inr body, w1) \<Rightarrow>
                 (case buildContent P u f body of
                    Inl e \<Rightarrow> (Inl (rethrow e), st\<lparr>world := w1, requests := requests st @ [u]\<rparr>)
                  | Inr c \<Rightarrow>
                      (Inr c, cacheContent P u f c
                                (st\<lparr>world := w1, requests := requests st @ [u]\<rparr>)))))"

text \<open>
  What holds of the cache between calls: the keys of a \<open>Map\<close> are distinct, the size
  is within the bound, and no entry was stamped later than the present time.
\<close>

definition cacheInv :: "'w platform \<Rightarrow> 'w services \<Rightarrow> bool" where
  "cacheInv P st =
     (distinct (map fst (contentCache st))
      \<and> length (contentCache st) \<le> maxCacheEntries
      \<and> (\<forall>x \<in> set (contentCache st). timestamp (snd x) \<le> dateNow P (world st)))"

section \<open>Enhanced extraction (EnhancedContentExtractor)\<close>

definition emptyStructuredData :: StructuredData where
  "emptyStructuredData = \<lparr>tables = [], lists = [], hierarchies = [], keyValuePairs = []\<rparr>"

definition enhanceContent ::
  "'w platform \<Rightarrow> WebpageContent \<Rightarrow> string \<Rightarrow> 'w services
     \<Rightarrow> EnhancedWebpageContent \<times> 'w services" where
  "enhanceContent P baseContent u st =
     (case fetchEnhancements P baseContent u (world st) of
        (Inr enh, w1) \<Rightarrow>
          (WebpageContent.extend baseContent
             (EnhancedWebpageContent.fields (enh_links enh) (enh_images enh)
                (enh_structuredData enh) (Some (dateNow P w1)) (Some (enh_credibility enh))),
           st\<lparr>world := w1\<rparr>)
      | (Inl e, w1) \<Rightarrow>
          (WebpageContent.extend baseContent
             (EnhancedWebpageContent.fields [] [] emptyStructuredData (Some (dateNow P w1)) None),
           st\<lparr>world := w1\<rparr>))"

definition extractEnhancedContent ::
  "'w platform \<Rightarrow> string \<Rightarrow> OutputFormat \<Rightarrow> 'w services
     \<Rightarrow> (thrown + EnhancedWebpageContent) \<times> 'w services" where
  "extractEnhancedContent P u f st =
     (case extractContent P u f st of
        (Inl e, st1) \<Rightarrow> (Inl e, st1)
      | (Inr baseContent, st1) \<Rightarrow>
          (case enhanceContent P baseContent u st1 of (c, st2) \<Rightarrow> (Inr c, st2)))"

section \<open>Session store (BrowsingSessionService)\<close>

text \<open>\<open>xs.join(sep)\<close>\<close>

fun joinWith :: "string \<Rightarrow> string list \<Rightarrow> string" where
  "joinWith sep [] = []"
| "joinWith sep [x] = x"
| "joinWith sep (x # y # ys) = x @ sep @ joinWith sep (y # ys)"

text \<open>An optional string is truthy when it is present and not empty.\<close>

definition truthy :: "string option \<Rightarrow> bool" where
  "truthy s = (case s of None \<Rightarrow> False | Some v \<Rightarrow> v \<noteq> [])"

text \<open>A \<open>Set\<close> of strings in insertion order: \<open>add\<close> of a present element changes nothing.\<close>

definition setAdd :: "string list \<Rightarrow> string \<Rightarrow> string list" where
  "setAdd s x = (if x \<in> set s then s else s @ [x])"

text \<open>The decimal digits of a number, as a template literal prints it.\<close>

fun showNat :: "nat \<Rightarrow> string" where
  "showNat n = (if n < 10 then [''0123456789'' ! n]
                else showNat (n div 10) @ [''0123456789'' ! (n mod 10)])"

definition createSession ::
  "'w platform \<Rightarrow> string option \<Rightarrow> 'w services \<Rightarrow> BrowsingSession \<times> 'w services" where
  "createSession P tpc st =
     (case uuidv4 P (world st) of
        (sessionId, w1) \<Rightarrow>
          (let now = dateNow P w1;
               session =
                 \<lparr>session_id = sessionId, startTime = now, lastActivityTime = now, topic = tpc,
                  currentUrl = None, history = [], bookmarks = [],
                  sessionSummary =
                    (if truthy tpc
                     then ''Research session on '' @ [CHR 0x22] @ the tpc @ [CHR 0x22]
                     else ''New browsing session''),
                  researchQuestions = []\<rparr>
           in (session, st\<lparr>sessions := (sessions st)(sessionId \<mapsto> session), world := w1\<rparr>)))"

definition getSession ::
  "'w platform \<Rightarrow> string \<Rightarrow> 'w services \<Rightarrow> BrowsingSession option \<times> 'w services" where
  "getSession P sessionId st =
     (case sessions st sessionId of
        Some session \<Rightarrow>
          (let session' = session\<lparr>lastActivityTime := dateNow P (world st)\<rparr>
           in (Some session', st\<lparr>sessions := (sessions st)(sessionId \<mapsto> session')\<rparr>))
      | None \<Rightarrow> (None, st))"

text \<open>\<open>BrowsingSessionService.generatePageSummary\<close>: the first two sentences.\<close>

definition sessionPageSummary :: "'w platform \<Rightarrow> EnhancedWebpageContent \<Rightarrow> string" where
  "sessionPageSummary P c =
     (if content c \<noteq> []
      then (let sentences = splitSentences P (content c)
            in joinWith '' '' (take 2 sentences) @ (if length sentences > 2 then ''...'' else []))
      else ''Summary of '' @ title c)"

text \<open>
  \<open>s.toLowerCase().replace(/[^\w\s]/g, '').split(/\s+/).filter(word => word.length > n)\<close>
\<close>

definition wordsLongerThan :: "'w platform \<Rightarrow> nat \<Rightarrow> string \<Rightarrow> string list" where
  "wordsLongerThan P n s =
     filter (\<lambda>word. length word > n) (splitWhitespace P (stripPunctuation P (toLowerCase P s)))"

definition extractKeywords :: "'w platform \<Rightarrow> EnhancedWebpageContent \<Rightarrow> string list" where
  "extractKeywords P c =
     (let fromTitle = (if title c \<noteq> [] then foldl setAdd [] (wordsLongerThan P 3 (title c)) else []);
          fromBoth = (if description c \<noteq> []
                      then foldl setAdd fromTitle (take 5 (wordsLongerThan P 4 (description c)))
                      else fromTitle)
      in take 10 fromBoth)"

definition updateSessionSummary :: "BrowsingSession \<Rightarrow> BrowsingSession" where
  "updateSessionSummary session =
     (if history session = [] then session
      else session\<lparr>sessionSummary :=
             ''Research session''
             @ (if truthy (topic session)
                then '' on '' @ [CHR 0x22] @ the (topic session) @ [CHR 0x22] else [])
             @ '' has explored '' @ showNat (length (history session)) @ '' pages.''
             @ [CHR 0x0A, CHR 0x0A] @ ''Key pages visited:'' @ [CHR 0x0A]
             @ concat (map (\<lambda>page. ''- '' @ h_title page @ '' ('' @ h_url page @ '')'' @ [CHR 0x0A])
                         (drop (length (history session) - 5) (history session)))\<rparr>)"

definition visitUrl ::
  "'w platform \<Rightarrow> string \<Rightarrow> string \<Rightarrow> string option \<Rightarrow> 'w services
     \<Rightarrow> (thrown + EnhancedWebpageContent) \<times> 'w services" where
  "visitUrl P sessionId u parent st =
     (case getSession P sessionId st of
        (None, st1) \<Rightarrow> (Inl (Error (''Session '' @ sessionId @ '' not found'')), st1)
      | (Some session, st1) \<Rightarrow>
          (case extractEnhancedContent P u Markdown st1 of
             (Inl e, st2) \<Rightarrow> (Inl e, st2)
           | (Inr enhancedContent, st2) \<Rightarrow>
               (let historyEntry =
                      \<lparr>h_url = u, h_title = title enhancedContent,
                       visitTime = dateNow P (world st2),
                       h_summary = (if summary enhancedContent \<noteq> [] then summary enhancedContent
                                    else sessionPageSummary P enhancedContent),
                       h_keywords = extractKeywords P enhancedContent,
                       h_parentUrl = parent\<rparr>;
                    session' = updateSessionSummary
                      (session\<lparr>history := history session @ [historyEntry],
                               currentUrl := Some u\<rparr>)
                in (Inr enhancedContent,
                    st2\<lparr>sessions := (sessions st2)(sessionId \<mapsto> session')\<rparr>))))"

section \<open>Navigation (NavigationService)\<close>

text \<open>
  The state one traversal call threads through its recursion: the visited set and the
  result object it mutates, and the services. \<open>loopExtractions\<close> is not in the source:
  it lists, in order, every URL the loop of \<open>followLinksRecursive\<close> handed to
  \<open>extractEnhancedContent\<close>, with whether the extraction returned.
\<close>

record 'w traversal =
  visitedUrls :: "string set"
  result :: FollowLinksResult
  services :: "'w services"
  loopExtractions :: "(string \<times> bool) list"

text \<open>\<open>x || []\<close> for an optional keyword list.\<close>

definition orEmpty :: "string list option \<Rightarrow> string list" where
  "orEmpty ks = (case ks of None \<Rightarrow> [] | Some v \<Rightarrow> v)"

text \<open>\<open>NavigationService.generatePageSummary\<close>: the first three sentences.\<close>

definition generatePageSummary :: "'w platform \<Rightarrow> EnhancedWebpageContent \<Rightarrow> string" where
  "generatePageSummary P c =
     (if content c \<noteq> []
      then (let sentences = splitSentences P (content c)
            in joinWith '' '' (take 3 sentences) @ (if length sentences > 3 then ''...'' else []))
      else ''Summary of '' @ title c)"

text \<open>\<open>content.summary || this.generatePageSummary(content)\<close>\<close>

definition summaryOf :: "'w platform \<Rightarrow> EnhancedWebpageContent \<Rightarrow> string" where
  "summaryOf P c = (if summary c \<noteq> [] then summary c else generatePageSummary P c)"

text \<open>
  \<open>calculateRelevanceScore\<close>: the loop over the keywords stops at the first keyword for
  which the regular expression cannot be built.
\<close>

fun scoreKeywords ::
  "'w platform \<Rightarrow> EnhancedWebpageContent \<Rightarrow> string \<Rightarrow> string list \<Rightarrow> real \<Rightarrow> thrown + real" where
  "scoreKeywords P c textToAnalyze [] score = Inr score"
| "scoreKeywords P c textToAnalyze (keyword # rest) score =
     (let keywordLower = toLowerCase P keyword in
      case regexWordCount P keywordLower textToAnalyze of
        Inl e \<Rightarrow> Inl e
      | Inr n \<Rightarrow>
          if n > 0
          then (let k1 = min (real n * 0.1) 0.3;
                    k2 = (if includes_str (toLowerCase P (title c)) keywordLower then k1 + 0.2 else k1);
                    k3 = (if description c \<noteq> []
                             \<and> includes_str (toLowerCase P (description c)) keywordLower
                          then k2 + 0.1 else k2)
                in scoreKeywords P c textToAnalyze rest (score + k3))
          else scoreKeywords P c textToAnalyze rest score)"

definition calculateRelevanceScore ::
  "'w platform \<Rightarrow> EnhancedWebpageContent \<Rightarrow> string list \<Rightarrow> thrown + real" where
  "calculateRelevanceScore P c kws =
     (if kws = [] then Inr 0.7
      else
        case scoreKeywords P c
               (toLowerCase P (title c @ '' '' @ description c @ '' '' @ content c)) kws 0 of
          Inl e \<Rightarrow> Inl e
        | Inr score \<Rightarrow> Inr (min (score / real (length kws)) 1.0))"

definition extractRelatedTopics :: "'w platform \<Rightarrow> PageVisited list \<Rightarrow> string list" where
  "extractRelatedTopics P pages =
     take 10 (foldl (\<lambda>topics page. foldl setAdd topics (wordsLongerThan P 3 (pv_title page)))
                [] pages)"

definition scoreOf :: "ExtractedLink \<Rightarrow> real" where
  "scoreOf link = (case relevanceScore link of None \<Rightarrow> 0 | Some s \<Rightarrow> s)"

text \<open>\<open>sort((a, b) => b.relevanceScore - a.relevanceScore)\<close>: stable, highest score first.\<close>

definition sortByRelevance :: "ExtractedLink list \<Rightarrow> ExtractedLink list" where
  "sortByRelevance ls = sort_key (\<lambda>link. - scoreOf link) ls"

definition domainAllowed :: "'w platform \<Rightarrow> string list \<Rightarrow> ExtractedLink \<Rightarrow> bool" where
  "domainAllowed P domains link =
     (case urlHostname P (link_url link) of
        None \<Rightarrow> False
      | Some linkDomain \<Rightarrow> list_ex (\<lambda>domain. includes_str linkDomain domain) domains)"

definition applyDomainFilter ::
  "'w platform \<Rightarrow> NavigationOptions \<Rightarrow> ExtractedLink list \<Rightarrow> ExtractedLink list" where
  "applyDomainFilter P options ls =
     (case includeDomains options of
        None \<Rightarrow> ls
      | Some domains \<Rightarrow> if domains \<noteq> [] then filter (domainAllowed P domains) ls else ls)"

definition keywordPresent :: "'w platform \<Rightarrow> string list \<Rightarrow> ExtractedLink \<Rightarrow> bool" where
  "keywordPresent P kws link =
     list_ex (\<lambda>keyword. includes_str (linkTextOf P link) (toLowerCase P keyword)) kws"

definition applyKeywordFilter ::
  "'w platform \<Rightarrow> NavigationOptions \<Rightarrow> ExtractedLink list \<Rightarrow> ExtractedLink list" where
  "applyKeywordFilter P options ls =
     (case filterByKeywords options of
        None \<Rightarrow> ls
      | Some kws \<Rightarrow> if kws \<noteq> [] then filter (keywordPresent P kws) ls else ls)"

text \<open>\<open>Math.min(3, Math.max(1, 4 - remainingDepth))\<close>\<close>

definition deeperLinkLimit :: "int \<Rightarrow> int" where
  "deeperLinkLimit remainingDepth = min 3 (max 1 (4 - remainingDepth))"

text \<open>
  Lines 1791 to 1832 of \<open>followLinksRecursive\<close>: the links of the page just visited that
  the next level is given.
\<close>

definition selectPageLinks ::
  "'w platform \<Rightarrow> EnhancedWebpageContent \<Rightarrow> NavigationOptions \<Rightarrow> int \<Rightarrow> ExtractedLink list" where
  "selectPageLinks P c options remainingDepth =
     (let scoredLinks =
            map (\<lambda>pageLink. pageLink\<lparr>relevanceScore :=
                    Some (calculateLinkRelevance P pageLink
                            (orEmpty (filterByKeywords options)) (url c))\<rparr>) (links c);
          byDomain = applyDomainFilter P options scoredLinks;
          byKeyword = applyKeywordFilter P options byDomain;
          byThreshold =
            (if relevanceThreshold options > 0
             then filter (\<lambda>pageLink. scoreOf pageLink \<ge> relevanceThreshold options) byKeyword
             else byKeyword)
      in take (nat (deeperLinkLimit remainingDepth)) (sortByRelevance byThreshold))"

text \<open>
  The first statements of the loop body: the extraction, and on success the additions to
  the visited set, to \<open>pagesVisited\<close> and to \<open>navigationPath\<close>. \<open>None\<close> stands for
  a throw that the loop's \<open>catch\<close> swallows: the extraction failed, or the page's relevance
  could not be computed (the URL is then already in the visited set).
\<close>

definition recordPage ::
  "'w platform \<Rightarrow> ExtractedLink \<Rightarrow> NavigationOptions \<Rightarrow> 'w traversal
     \<Rightarrow> EnhancedWebpageContent option \<times> 'w traversal" where
  "recordPage P link options t =
     (case extractEnhancedContent P (link_url link) Markdown (services t) of
        (Inl e, st1) \<Rightarrow>
          (None, t\<lparr>services := st1,
                   loopExtractions := loopExtractions t @ [(link_url link, False)]\<rparr>)
      | (Inr c, st1) \<Rightarrow>
          (let t1 = t\<lparr>services := st1,
                      loopExtractions := loopExtractions t @ [(link_url link, True)],
                      visitedUrls := insert (link_url link) (visitedUrls t)\<rparr>
           in case calculateRelevanceScore P c (orEmpty (filterByKeywords options)) of
                Inl e \<Rightarrow> (None, t1)
              | Inr rel \<Rightarrow>
                  (Some c,
                   t1\<lparr>result := (result t1)
                        \<lparr>pagesVisited := pagesVisited (result t1)
                           @ [\<lparr>pv_url = link_url link, pv_title = title c, relevance = rel,
                                pv_summary = summaryOf P c\<rparr>],
                         navigationPath := navigationPath (result t1) @ [link_url link]\<rparr>\<rparr>)))"

text \<open>
  The last statement of the loop body: the visit is added to the browsing session; what
  \<open>visitUrl\<close> throws is swallowed by the loop's \<open>catch\<close>.
\<close>

definition trackVisit ::
  "'w platform \<Rightarrow> string \<Rightarrow> string \<Rightarrow> string \<Rightarrow> 'w traversal \<Rightarrow> 'w traversal" where
  "trackVisit P sessionId u parent t =
     t\<lparr>services := snd (visitUrl P sessionId u (Some parent) (services t))\<rparr>"

function followLinksRecursive ::
    "'w platform \<Rightarrow> string \<Rightarrow> ExtractedLink list \<Rightarrow> int \<Rightarrow> NavigationOptions \<Rightarrow> string
       \<Rightarrow> 'w traversal \<Rightarrow> 'w traversal"
  and followLoop ::
    "'w platform \<Rightarrow> string \<Rightarrow> ExtractedLink list \<Rightarrow> int \<Rightarrow> NavigationOptions \<Rightarrow> string
       \<Rightarrow> 'w traversal \<Rightarrow> 'w traversal"
where
  "followLinksRecursive P sessionId ls remainingDepth options parent t =
     (if remainingDepth \<le> 0 \<or> ls = [] then t
      else followLoop P sessionId ls remainingDepth options parent t)"
| "followLoop P sessionId [] remainingDepth options parent t = t"
| "followLoop P sessionId (link # rest) remainingDepth options parent t =
     (if link_url link \<in> visitedUrls t
      then followLoop P sessionId rest remainingDepth options parent t
      else
        case recordPage P link options t of
          (None, t1) \<Rightarrow> followLoop P sessionId rest remainingDepth options parent t1
        | (Some c, t1) \<Rightarrow>
            followLoop P sessionId rest remainingDepth options parent
              (trackVisit P sessionId (link_url link) parent
                 (if remainingDepth \<ge> 1 \<and> links c \<noteq> []
                     \<and> selectPageLinks P c options remainingDepth \<noteq> []
                  then followLinksRecursive P sessionId
                         (selectPageLinks P c options remainingDepth)
                         (remainingDepth - 1) options (link_url link) t1
                  else t1)))"
  by pat_completeness auto
termination
  by (relation "measures
        [\<lambda>x. case x of Inl (P, s, ls, d, r) \<Rightarrow> nat d | Inr (P, s, ls, d, r) \<Rightarrow> nat d,
         \<lambda>x. case x of Inl (P, s, ls, d, r) \<Rightarrow> Suc (length ls)
                     | Inr (P, s, ls, d, r) \<Rightarrow> length ls]")
     auto

text \<open>Lines 1668 to 1725 of \<open>followLinks\<close>: the links of the start page that are followed.\<close>

definition absoluteUrl :: "'w platform \<Rightarrow> string \<Rightarrow> string \<Rightarrow> string" where
  "absoluteUrl P linkUrl base =
     (if \<not> startsWith linkUrl ''http''
      then (case urlResolve P linkUrl base of None \<Rightarrow> linkUrl | Some href \<Rightarrow> href)
      else linkUrl)"

definition selectStartLinks ::
  "'w platform \<Rightarrow> EnhancedWebpageContent \<Rightarrow> string \<Rightarrow> string list option \<Rightarrow> NavigationOptions
     \<Rightarrow> int \<Rightarrow> ExtractedLink list" where
  "selectStartLinks P startContent u kws options maxLinks =
     (let scoredLinks =
            map (\<lambda>link. link\<lparr>link_url := absoluteUrl P (link_url link) u,
                              relevanceScore :=
                                Some (calculateLinkRelevance P
                                        (link\<lparr>link_url := absoluteUrl P (link_url link) u\<rparr>)
                                        (orEmpty kws) (url startContent))\<rparr>)
              (links startContent);
          byThreshold = filter (\<lambda>link. scoreOf link \<ge> relevanceThreshold options) scoredLinks;
          byDomain = applyDomainFilter P options byThreshold;
          byKeyword = applyKeywordFilter P options byDomain
      in take (nat maxLinks) (sortByRelevance byKeyword))"

text \<open>
  The traversal state \<open>followLinks\<close> starts from: the result with the start page
  alone, at relevance 1, and the visited set with the start URL alone.
\<close>

definition initialTraversal ::
  "'w platform \<Rightarrow> string \<Rightarrow> EnhancedWebpageContent \<Rightarrow> 'w services \<Rightarrow> 'w traversal" where
  "initialTraversal P u startContent st =
     \<lparr>visitedUrls = {u},
      result = \<lparr>startUrl = u,
                pagesVisited = [\<lparr>pv_url = u, pv_title = title startContent, relevance = 1.0,
                                 pv_summary = summaryOf P startContent\<rparr>],
                navigationPath = [u], relatedTopics = []\<rparr>,
      services = st, loopExtractions = []\<rparr>"

text \<open>
  \<open>followLinks\<close>, returning the whole traversal state at the point where the source
  returns \<open>result\<close>.
\<close>

definition followLinksTraversal ::
  "'w platform \<Rightarrow> string \<Rightarrow> FollowLinksParams \<Rightarrow> 'w services
     \<Rightarrow> (thrown + 'w traversal) \<times> 'w services" where
  "followLinksTraversal P sessionId params st =
     (let u = p_url params;
          st1 = (case getSession P sessionId st of
                   (Some session, s) \<Rightarrow> s
                 | (None, s) \<Rightarrow>
                     snd (createSession P (map_option (joinWith '', '') (p_keywords params)) s))
      in case extractEnhancedContent P u Markdown st1 of
           (Inl e, st2) \<Rightarrow> (Inl e, st2)
         | (Inr startContent, st2) \<Rightarrow>
             (case visitUrl P sessionId u None st2 of
                (Inl e, st3) \<Rightarrow> (Inl e, st3)
              | (Inr visitedContent, st3) \<Rightarrow>
                  (let t0 = initialTraversal P u startContent st3
                   in if depth params \<le> 0 \<or> maxLinksToFollow params \<le> 0 then (Inr t0, st3)
                      else if links startContent = [] then (Inr t0, st3)
                      else
                        case (if stayOnDomain params = Some True
                              then map_option (\<lambda>h. [h]) (urlHostname P u) else Some []) of
                          None \<Rightarrow> (Inl (Error ''Invalid URL''), st3)
                        | Some domains \<Rightarrow>
                            (let options =
                                   \<lparr>opt_followLinks = True, maxDepth = depth params,
                                    relevanceThreshold = 0.1,
                                    filterByKeywords = p_keywords params,
                                    excludeDomains = Some [], includeDomains = Some domains\<rparr>;
                                 linksToFollow =
                                   selectStartLinks P startContent u (p_keywords params) options
                                     (maxLinksToFollow params);
                                 t1 = followLinksRecursive P sessionId linksToFollow
                                        (depth params - 1) options u t0;
                                 t2 = t1\<lparr>result := (result t1)
                                         \<lparr>relatedTopics :=
                                            extractRelatedTopics P (pagesVisited (result t1))\<rparr>\<rparr>
                             in (Inr t2, services t2)))))"

definition followLinks ::
  "'w platform \<Rightarrow> string \<Rightarrow> FollowLinksParams \<Rightarrow> 'w services
     \<Rightarrow> (thrown + FollowLinksResult) \<times> 'w services" where
  "followLinks P sessionId params st =
     (case followLinksTraversal P sessionId params st of
        (Inl e, st1) \<Rightarrow> (Inl e, st1)
      | (Inr t, st1) \<Rightarrow> (Inr (result t), st1))"

text \<open>
  Once the loop has extracted a URL successfully, no later entry of the list is an
  extraction of the same URL.
\<close>

fun neverAgain :: "(string \<times> bool) list \<Rightarrow> bool" where
  "neverAgain [] = True"
| "neverAgain ((u, ok) # rest) = ((\<not> ok \<or> u \<notin> set (map fst rest)) \<and> neverAgain rest)"

text \<open>
  What holds of a traversal state throughout one call started at \<open>start\<close>: the start URL
  and the URL of every page in \<open>pagesVisited\<close> are in the visited set, no URL is in
  \<open>pagesVisited\<close> twice, \<open>navigationPath\<close> lists the same URLs, every URL the loop
  extracted successfully is in the visited set, the loop never extracted the start URL, and
  it never extracted a URL again after a successful extraction.
\<close>

definition traversalInv :: "string \<Rightarrow> 'w traversal \<Rightarrow> bool" where
  "traversalInv start t =
     (start \<in> visitedUrls t
      \<and> (\<forall>p \<in> set (pagesVisited (result t)). pv_url p \<in> visitedUrls t)
      \<and> distinct (map pv_url (pagesVisited (result t)))
      \<and> navigationPath (result t) = map pv_url (pagesVisited (result t))
      \<and> (\<forall>x \<in> set (loopExtractions t). snd x \<longrightarrow> fst x \<in> visitedUrls t)
      \<and> (\<forall>x \<in> set (loopExtractions t). fst x \<noteq> start)
      \<and> neverAgain (loopExtractions t))"

section \<open>An example platform\<close>

text \<open>
  Lower-casing for the examples: the letters A to Z become a to z and every other code unit
  stays, which is what \<open>String.prototype.toLowerCase\<close> does on ASCII text. For a code
  unit in 65..90 the lower-case letter is 32 higher, that is, the same bits with bit 5 set.
\<close>

definition lowerChar :: "char \<Rightarrow> char" where
  "lowerChar c =
     (case c of Char b0 b1 b2 b3 b4 b5 b6 b7 \<Rightarrow>
        if 65 \<le> (of_char c :: nat) \<and> (of_char c :: nat) \<le> 90
        then Char b0 b1 b2 b3 b4 True b6 b7 else c)"

definition asciiLowerCase :: "string \<Rightarrow> string" where
  "asciiLowerCase s = map lowerChar s"

text \<open>A small URL reader for the examples: scheme, \<open>://\<close>, then the host up to the path.\<close>

definition exampleHostname :: "string \<Rightarrow> string option" where
  "exampleHostname u =
     (let rest = (if startsWith u ''https://'' then Some (drop 8 u)
                  else if startsWith u ''http://'' then Some (drop 7 u) else None)
      in case rest of
           None \<Rightarrow> None
         | Some r \<Rightarrow>
             (let h = takeWhile (\<lambda>c. c \<noteq> CHR ''/'' \<and> c \<noteq> CHR ''?'' \<and> c \<noteq> CHR ''#'' \<and> c \<noteq> CHR '':'') r
              in if h = [] then None else Some (asciiLowerCase h)))"

definition mkLink :: "string \<Rightarrow> string \<Rightarrow> string \<Rightarrow> ExtractedLink" where
  "mkLink u t c =
     \<lparr>link_url = u, link_text = t, link_context = c, isRelevant = None, relevanceScore = None, visited = None\<rparr>"

text \<open>
  A small closed world for the examples: a table of pages (URL, title, outbound links),
  a clock that advances by one millisecond at each network call, regular-expression helpers that
  do nothing, and the lower-casing above. A URL outside the table makes the HTTP client throw its timeout error.
\<close>

definition examplePlatform :: "(string \<times> string \<times> ExtractedLink list) list \<Rightarrow> int platform" where
  "examplePlatform web =
     \<lparr>urlHostname = exampleHostname,
      urlResolve = (\<lambda>rel base. None),
      dateNow = (\<lambda>w. w),
      uuidv4 = (\<lambda>w. (''generated-id'', w)),
      axiosGet = (\<lambda>u w. (case map_of web u of
                              None \<Rightarrow> Inl (AxiosError ''timeout of 30000ms exceeded'')
                            | Some page \<Rightarrow> Inr u, w + 1)),
      buildContent = (\<lambda>u f body. case map_of web u of
                              None \<Rightarrow> Inl (Error ''no document'')
                            | Some page \<Rightarrow>
                                Inr \<lparr>url = u, title = fst page, description = [], content = [],
                                     format = f, meta_tags = [], word_count = 0,
                                     approximate_chars = 0, first_500_chars = [], summary = [],
                                     headings = []\<rparr>),
      fetchEnhancements = (\<lambda>baseContent u w. (case map_of web u of
                              None \<Rightarrow> Inl (Error ''fetch failed'')
                            | Some page \<Rightarrow>
                                Inr \<lparr>enh_links = snd page, enh_images = [],
                                     enh_structuredData =
                                       \<lparr>tables = [], lists = [], hierarchies = [], keyValuePairs = []\<rparr>,
                                     enh_credibility = (0.5, [])\<rparr>, w + 1)),
      regexWordCount = (\<lambda>keyword t. Inr 0),
      splitSentences = (\<lambda>s. [s]),
      stripPunctuation = (\<lambda>s. s),
      splitWhitespace = (\<lambda>s. [s]),
      toLowerCase = asciiLowerCase\<rparr>"

definition emptyServices :: "int services" where
  "emptyServices = \<lparr>contentCache = [], sessions = Map.empty, world = 0, requests = []\<rparr>"

text \<open>
  A start page \<open>s\<close> with two links, the first leading to a page with three links; and a
  start page \<open>r\<close> that links to itself and twice to the same page.
\<close>

definition exampleWeb :: "(string \<times> string \<times> ExtractedLink list) list" where
  "exampleWeb =
     [(''http://e.io/s'', ''S'', [mkLink ''http://e.io/a'' ''a'' [], mkLink ''http://e.io/z'' ''z'' []]),
      (''http://e.io/a'', ''A'',
         [mkLink ''http://e.io/b'' ''b'' [], mkLink ''http://e.io/c'' ''c'' [],
          mkLink ''http://e.io/d'' ''d'' []]),
      (''http://e.io/b'', ''B'', []),
      (''http://e.io/c'', ''C'', []),
      (''http://e.io/d'', ''D'', []),
      (''http://e.io/z'', ''Z'', []),
      (''http://e.io/r'', ''R'',
         [mkLink ''http://e.io/r'' ''r'' [], mkLink ''http://e.io/b'' ''b'' [],
          mkLink ''http://e.io/b'' ''b'' []])]"

definition exampleSession :: BrowsingSession where
  "exampleSession =
     \<lparr>session_id = ''s1'', startTime = 0, lastActivityTime = 0, topic = None,
      currentUrl = None, history = [], bookmarks = [],
      sessionSummary = ''New browsing session'', researchQuestions = []\<rparr>"

definition exampleServices :: "int services" where
  "exampleServices =
     \<lparr>contentCache = [], sessions = [''s1'' \<mapsto> exampleSession], world = 0, requests = []\<rparr>"

definition exampleParams :: "string \<Rightarrow> int \<Rightarrow> int \<Rightarrow> FollowLinksParams" where
  "exampleParams u d n =
     \<lparr>p_url = u, p_keywords = None, maxLinksToFollow = n, depth = d,
      stayOnDomain = Some False\<rparr>"

text \<open>A cache holding as many entries as it may, the oldest first.\<close>

definition examplePage :: WebpageContent where
  "examplePage =
     \<lparr>url = ''http://e.io/b'', title = ''B'', description = [], content = [],
      format = Markdown, meta_tags = [], word_count = 0, approximate_chars = 0,
      first_500_chars = [], summary = [], headings = []\<rparr>"

definition fullCache :: "(string \<times> ContentCacheEntry) list" where
  "fullCache =
     map (\<lambda>i. (replicate (Suc i) CHR ''k'',
               \<lparr>timestamp = int i, entry_content = examplePage\<rparr>)) [0..<50]"

definition fullServices :: "int services" where
  "fullServices = \<lparr>contentCache = fullCache, sessions = Map.empty, world = 100, requests = []\<rparr>"

text \<open>The example platform with an enhancement step that always throws.\<close>

definition brokenEnhancement :: "int platform" where
  "brokenEnhancement =
     (examplePlatform exampleWeb)
       \<lparr>fetchEnhancements := (\<lambda>baseContent u w. (Inl (Error ''fetch failed''), w + 1))\<rparr>"

text \<open>
  The example platform with the world as a list of the network calls made so far, in order:
  each \<open>axios.get\<close> of \<open>extractContent\<close> and each \<open>fetch\<close> of
  \<open>enhanceContent\<close> adds its URL. The clock reads the number of calls.
\<close>

definition loggingPlatform ::
  "(string \<times> string \<times> ExtractedLink list) list \<Rightarrow> string list platform" where
  "loggingPlatform web =
     \<lparr>urlHostname = exampleHostname,
      urlResolve = (\<lambda>rel base. None),
      dateNow = (\<lambda>w. int (length w)),
      uuidv4 = (\<lambda>w. (''generated-id'', w)),
      axiosGet = (\<lambda>u w. (case map_of web u of
                              None \<Rightarrow> Inl (AxiosError ''timeout of 30000ms exceeded'')
                            | Some page \<Rightarrow> Inr u, w @ [''axios.get '' @ u])),
      buildContent = buildContent (examplePlatform web),
      fetchEnhancements = (\<lambda>baseContent u w.
                             (fst (fetchEnhancements (examplePlatform web) baseContent u 0),
                              w @ [''fetch '' @ u])),
      regexWordCount = (\<lambda>keyword t. Inr 0),
      splitSentences = (\<lambda>s. [s]),
      stripPunctuation = (\<lambda>s. s),
      splitWhitespace = (\<lambda>s. [s]),
      toLowerCase = asciiLowerCase\<rparr>"

definition loggedServices :: "string list services" where
  "loggedServices =
     \<lparr>contentCache = [], sessions = [''s1'' \<mapsto> exampleSession], world = [], requests = []\<rparr>"

definition exampleOptions :: NavigationOptions where
  "exampleOptions =
     \<lparr>opt_followLinks = True, maxDepth = 2, relevanceThreshold = 0.1, filterByKeywords = None,
      excludeDomains = Some [], includeDomains = Some []\<rparr>"

text \<open>A traversal state just after the start page \<open>r\<close>, with no network call made yet.\<close>

definition loggedStart :: "string list traversal" where
  "loggedStart =
     \<lparr>visitedUrls = {''http://e.io/r''},
      result = \<lparr>startUrl = ''http://e.io/r'', pagesVisited = [],
                navigationPath = [''http://e.io/r''], relatedTopics = []\<rparr>,
      services = loggedServices, loopExtractions = []\<rparr>"

section \<open>Properties of the link scorer\<close>

lemma foldl_keywordStep:
  "foldl (keywordStep P link (linkTextOf P link)) acc ks
     = acc + sum_list (map (keywordContribution P link) ks)"
  by (induction ks arbitrary: acc)
     (simp_all add: keywordStep_def keywordContribution_def Let_def)

lemma keywordContribution_bounds:
  "0 \<le> keywordContribution P link k \<and> keywordContribution P link k \<le> 0.7"
  by (simp add: keywordContribution_def Let_def)

lemma sum_contribution_bounds:
  "0 \<le> sum_list (map (keywordContribution P link) ks)
   \<and> sum_list (map (keywordContribution P link) ks) \<le> 0.7 * real (length ks)"
proof (induction ks)
  case Nil
  show ?case by simp
next
  case (Cons k ks)
  have "0 \<le> keywordContribution P link k" "keywordContribution P link k \<le> 0.7"
    using keywordContribution_bounds [of P link k] by simp_all
  with Cons show ?case by (simp add: algebra_simps)
qed

lemma sum_contribution_le_length:
  assumes "kws \<noteq> []"
  shows "sum_list (map (keywordContribution P link) kws) + 0.1 \<le> real (length kws)"
proof -
  have "1 \<le> real (length kws)"
    using assms by (cases kws) simp_all
  moreover have "sum_list (map (keywordContribution P link) kws) \<le> 0.7 * real (length kws)"
    using sum_contribution_bounds [of P link kws] by simp
  ultimately show ?thesis by simp
qed

lemma sum_contribution_cong:
  assumes "\<forall>k \<in> set kws. keywordContribution P a k = keywordContribution P b k"
  shows "sum_list (map (keywordContribution P a) kws) = sum_list (map (keywordContribution P b) kws)"
  using assms by (induction kws) simp_all

text \<open>
  Claim C2, as stated, fails on the code. With two keywords that both occur in the anchor
  text, one of them also in the target URL, and a link on the source document's domain, the
  reference formula of section 4.3 gives 0.8 / 2 + 0.1 = 0.5, while the code divides the
  adjusted total and returns (0.8 + 0.1) / 2 = 0.45.
\<close>

theorem linkRelevance_differs_from_reference:
  "calculateLinkRelevance (examplePlatform [])
       (mkLink ''https://example.com/solar'' ''Solar energy news'' '''')
       [''solar'', ''energy''] ''https://example.com/a'' = 0.45
   \<and> specLinkRelevance (examplePlatform [])
       (mkLink ''https://example.com/solar'' ''Solar energy news'' '''')
       [''solar'', ''energy''] ''https://example.com/a'' = 0.5"
  by (simp add: calculateLinkRelevance_def specLinkRelevance_def keywordStep_def
      keywordContribution_def mkLink_def exampleHostname_def sameDomain_def linkTextOf_def
      examplePlatform_def asciiLowerCase_def lowerChar_def clamp01_def Let_def)

text \<open>
  Claim C2, amended: for every link, keyword list and source document the link relevance
  score is exactly 0.6 when the keyword list is empty; otherwise it is the per-keyword sum
  of +0.3 for an occurrence in the lower-cased anchor text and context, +0.2 for an
  occurrence in the target URL and +0.2 for an occurrence in a non-empty context window,
  plus 0.1 if the target URL shares the source document's host, multiplied by 0.5 if the
  anchor text is shorter than 5 characters, plus a flat 0.1 if it is longer than 20
  characters, and this adjusted total is then divided by the keyword count and capped at 1.
  The result lies in [0,1].
\<close>

theorem linkRelevance_formula:
  "calculateLinkRelevance P link kws parentUrl
     = totalLinkRelevance P link kws parentUrl
   \<and> 0 \<le> calculateLinkRelevance P link kws parentUrl
   \<and> calculateLinkRelevance P link kws parentUrl \<le> 1"
proof (cases "kws = []")
  case True
  then show ?thesis
    by (simp add: calculateLinkRelevance_def totalLinkRelevance_def)
next
  case False
  have "0 \<le> sum_list (map (keywordContribution P link) kws)"
    using sum_contribution_bounds [of P link kws] by simp
  with False show ?thesis
    by (simp add: calculateLinkRelevance_def totalLinkRelevance_def foldl_keywordStep Let_def)
qed

text \<open>
  Claim C4: for a non-empty keyword list, a link whose anchor text is shorter than 5
  characters scores exactly half of what a link with the same signals scores when its
  anchor text has between 5 and 20 characters. The same signals: the same target URL, the
  same context window, and the same keywords occurring in the combined anchor text and
  context.
\<close>

theorem short_text_halves_score:
  assumes "kws \<noteq> []"
    and "length (link_text a) < 5"
    and "5 \<le> length (link_text b)" and "length (link_text b) \<le> 20"
    and "link_url a = link_url b" and "link_context a = link_context b"
    and "\<forall>k \<in> set kws. includes_str (linkTextOf P a) (toLowerCase P k)
                         = includes_str (linkTextOf P b) (toLowerCase P k)"
  shows "calculateLinkRelevance P a kws parentUrl
           = calculateLinkRelevance P b kws parentUrl / 2"
proof -
  let ?sa = "sum_list (map (keywordContribution P a) kws)"
  let ?sb = "sum_list (map (keywordContribution P b) kws)"
  let ?n = "real (length kws)"
  have "\<forall>k \<in> set kws. keywordContribution P a k = keywordContribution P b k"
    using assms(5-7) by (simp add: keywordContribution_def Let_def)
  then have same: "?sa = ?sb"
    by (rule sum_contribution_cong)
  have n: "0 < ?n"
    using assms(1) by simp
  have nonneg: "0 \<le> ?sb"
    using sum_contribution_bounds [of P b kws] by simp
  have le: "?sb + 0.1 \<le> ?n"
    using assms(1) by (rule sum_contribution_le_length)
  define d where "d = (if sameDomain P (link_url b) parentUrl then ?sb + 0.1 else ?sb)"
  have d: "0 \<le> d" "d \<le> ?n"
    using nonneg le by (simp_all add: d_def)
  have d1: "d / ?n \<le> 1"
    using d n by simp
  then have d2: "d * 0.5 / ?n \<le> 1"
    using d n by simp
  have a: "calculateLinkRelevance P a kws parentUrl = min (d * 0.5 / ?n) 1"
    using assms(1,2,5) same
    by (simp add: calculateLinkRelevance_def foldl_keywordStep Let_def d_def)
  have b: "calculateLinkRelevance P b kws parentUrl = min (d / ?n) 1"
    using assms(1,3,4)
    by (simp add: calculateLinkRelevance_def foldl_keywordStep Let_def d_def)
  show ?thesis
    using d1 d2 by (simp add: a b min_def)
qed

theorem short_text_halves_score_witness:
  "calculateLinkRelevance (examplePlatform [])
       (mkLink ''https://example.com/solar'' ''Sun'' ''solar power'')
       [''Solar''] ''https://example.com/a''
     = calculateLinkRelevance (examplePlatform [])
       (mkLink ''https://example.com/solar'' ''Sunshine'' ''solar power'')
       [''Solar''] ''https://example.com/a'' / 2
   \<and> calculateLinkRelevance (examplePlatform [])
       (mkLink ''https://example.com/solar'' ''Sunshine'' ''solar power'')
       [''Solar''] ''https://example.com/a'' = 0.8"
proof -
  let ?a = "mkLink ''https://example.com/solar'' ''Sun'' ''solar power''"
  let ?b = "mkLink ''https://example.com/solar'' ''Sunshine'' ''solar power''"
  have h1: "[''Solar''] \<noteq> []" by simp
  have h2: "length (link_text ?a) < 5" by (simp add: mkLink_def)
  have h3: "5 \<le> length (link_text ?b)" by (simp add: mkLink_def)
  have h4: "length (link_text ?b) \<le> 20" by (simp add: mkLink_def)
  have h5: "link_url ?a = link_url ?b" by (simp add: mkLink_def)
  have h6: "link_context ?a = link_context ?b" by (simp add: mkLink_def)
  have h7: "\<forall>k \<in> set [''Solar''].
              includes_str (linkTextOf (examplePlatform []) ?a) (toLowerCase (examplePlatform []) k)
              = includes_str (linkTextOf (examplePlatform []) ?b) (toLowerCase (examplePlatform []) k)"
    by (simp add: mkLink_def linkTextOf_def examplePlatform_def asciiLowerCase_def lowerChar_def)
  have v: "calculateLinkRelevance (examplePlatform []) ?b [''Solar''] ''https://example.com/a'' = 0.8"
    by (simp add: calculateLinkRelevance_def keywordStep_def mkLink_def exampleHostname_def
        sameDomain_def linkTextOf_def examplePlatform_def asciiLowerCase_def lowerChar_def Let_def)
  show ?thesis
    using short_text_halves_score [OF h1 h2 h3 h4 h5 h6 h7, of "''https://example.com/a''"] v
    by simp
qed

section \<open>Association lists as insertion-ordered maps\<close>

lemma mapSet_new: "k \<notin> set (map fst m) \<Longrightarrow> mapSet k v m = m @ [(k, v)]"
  by (induction m) auto

lemma mapSet_keys: "set (map fst (mapSet k v m)) = insert k (set (map fst m))"
proof (induction m)
  case Nil
  show ?case by simp
next
  case (Cons a m)
  obtain k' v' where a: "a = (k', v')" by (cases a)
  show ?case
  proof (cases "k' = k")
    case True
    then show ?thesis by (simp add: a)
  next
    case False
    then show ?thesis using Cons.IH by (simp add: a insert_commute)
  qed
qed

lemma mapSet_distinct: "distinct (map fst m) \<Longrightarrow> distinct (map fst (mapSet k v m))"
proof (induction m)
  case Nil
  then show ?case by simp
next
  case (Cons a m)
  have "set (map fst (mapSet k v m)) = insert k (set (map fst m))"
    by (rule mapSet_keys)
  with Cons show ?case by (cases a) auto
qed

lemma mapSet_length_present: "k \<in> set (map fst m) \<Longrightarrow> length (mapSet k v m) = length m"
  by (induction m) force+

lemma mapSet_length_le: "length (mapSet k v m) \<le> Suc (length m)"
  by (induction m) auto

lemma mapSet_entries: "x \<in> set (mapSet k v m) \<Longrightarrow> x = (k, v) \<or> x \<in> set m"
  by (induction m) (auto split: if_splits)

lemma map_of_mapSet: "map_of (mapSet k v m) k = Some v"
  by (induction m) auto

lemma map_of_mapDelete_other: "k' \<noteq> k \<Longrightarrow> map_of (mapDelete k m) k' = map_of m k'"
  by (induction m) auto

lemma mapDelete_subset: "x \<in> set (mapDelete k m) \<Longrightarrow> x \<in> set m"
  by (induction m) (auto split: if_splits)

lemma mapDelete_distinct: "distinct (map fst m) \<Longrightarrow> distinct (map fst (mapDelete k m))"
proof (induction m)
  case Nil
  then show ?case by simp
next
  case (Cons a m)
  have "\<And>x. x \<in> set (mapDelete k m) \<Longrightarrow> x \<in> set m"
    by (rule mapDelete_subset)
  with Cons show ?case by (cases a) force
qed

lemma mapDelete_filter:
  "distinct (map fst m) \<Longrightarrow> (k, v) \<in> set m \<Longrightarrow>
     mapDelete k m = filter (\<lambda>x. x \<noteq> (k, v)) m \<and> length (mapDelete k m) + 1 = length m"
proof (induction m)
  case Nil
  then show ?case by simp
next
  case (Cons a m)
  show ?case
  proof (cases "fst a = k")
    case True
    with Cons.prems have a: "a = (k, v)" by (cases a) force
    have "\<forall>x \<in> set m. x \<noteq> (k, v)" using Cons.prems a by force
    then have "filter (\<lambda>x. x \<noteq> (k, v)) m = m" by (simp add: filter_id_conv)
    with a show ?thesis by simp
  next
    case False
    with Cons show ?thesis by (cases a) auto
  qed
qed

lemma hd_sort_key_least:
  assumes "m \<noteq> []"
  shows "hd (sort_key f m) \<in> set m \<and> (\<forall>x \<in> set m. f (hd (sort_key f m)) \<le> f x)"
proof -
  let ?s = "sort_key f m"
  have "length ?s = length m" by simp
  with assms have "?s \<noteq> []" by (cases ?s) auto
  then obtain y ys where s: "?s = y # ys" by (cases ?s) auto
  have "sorted (map f ?s)" by (rule sorted_sort_key)
  with s have least: "\<forall>x \<in> set (y # ys). f y \<le> f x" by auto
  have "set (y # ys) = set m" using s set_sort [of f m] by simp
  with least s show ?thesis by auto
qed

lemma insort_key_snoc:
  "f y \<le> f x \<Longrightarrow> insort_key f y (zs @ [x]) = insort_key f y zs @ [x]"
  by (induction zs) auto

lemma sort_key_snoc:
  "\<forall>y \<in> set xs. f y \<le> f x \<Longrightarrow> sort_key f (xs @ [x]) = sort_key f xs @ [x]"
proof (induction xs)
  case Nil
  then show ?case by simp
next
  case (Cons a xs)
  then have "sort_key f (xs @ [x]) = sort_key f xs @ [x]" by simp
  moreover have "f a \<le> f x" using Cons.prems by simp
  ultimately show ?case by (simp add: insort_key_snoc)
qed

section \<open>Properties of the content cache\<close>

lemma oldestKey_present:
  assumes "m \<noteq> []"
  shows "\<exists>e. (oldestKey m, e) \<in> set m \<and> (\<forall>x \<in> set m. timestamp e \<le> timestamp (snd x))"
proof -
  let ?h = "hd (sort_key (\<lambda>e. timestamp (snd e)) m)"
  have "?h \<in> set m \<and> (\<forall>x \<in> set m. timestamp (snd ?h) \<le> timestamp (snd x))"
    using hd_sort_key_least [OF assms, of "\<lambda>e. timestamp (snd e)"] by simp
  moreover have "?h = (oldestKey m, snd ?h)"
    by (simp add: oldestKey_def)
  ultimately show ?thesis by metis
qed

lemma cache_keeps_fresh_entry:
  assumes d: "distinct (map fst (contentCache st))"
    and le: "length (contentCache st) \<le> maxCacheEntries"
    and old: "\<forall>x \<in> set (contentCache st). timestamp (snd x) \<le> dateNow P (world st)"
  shows "map_of (contentCache (cacheContent P u f c st)) (generateCacheKey u f)
           = Some \<lparr>timestamp = dateNow P (world st), entry_content = c\<rparr>"
proof -
  let ?k = "generateCacheKey u f"
  let ?e = "\<lparr>timestamp = dateNow P (world st), entry_content = c\<rparr>"
  let ?m = "mapSet ?k ?e (contentCache st)"
  show ?thesis
  proof (cases "length ?m > maxCacheEntries")
    case False
    then show ?thesis by (simp add: cacheContent_def Let_def map_of_mapSet)
  next
    case True
    have new: "?k \<notin> set (map fst (contentCache st))"
    proof
      assume "?k \<in> set (map fst (contentCache st))"
      then have "length ?m = length (contentCache st)" by (rule mapSet_length_present)
      with True le show False by simp
    qed
    then have m: "?m = contentCache st @ [(?k, ?e)]" by (rule mapSet_new)
    have ne: "contentCache st \<noteq> []"
      using True m by (auto simp: maxCacheEntries_def)
    have "sort_key (\<lambda>e. timestamp (snd e)) ?m
            = sort_key (\<lambda>e. timestamp (snd e)) (contentCache st) @ [(?k, ?e)]"
      unfolding m using old by (intro sort_key_snoc) simp
    moreover have "sort_key (\<lambda>e. timestamp (snd e)) (contentCache st) \<noteq> []"
      using ne by (metis length_0_conv length_sort)
    ultimately have "oldestKey ?m = fst (hd (sort_key (\<lambda>e. timestamp (snd e)) (contentCache st)))"
      by (simp add: oldestKey_def)
    moreover have "hd (sort_key (\<lambda>e. timestamp (snd e)) (contentCache st)) \<in> set (contentCache st)"
      using hd_sort_key_least [OF ne] by blast
    ultimately have "oldestKey ?m \<in> set (map fst (contentCache st))" by simp
    with new have "oldestKey ?m \<noteq> ?k" by metis
    then have "map_of (mapDelete (oldestKey ?m) ?m) ?k = map_of ?m ?k"
      by (intro map_of_mapDelete_other) simp
    with True show ?thesis by (simp add: cacheContent_def Let_def map_of_mapSet)
  qed
qed

lemma cacheContent_inv:
  assumes "cacheInv P st"
  shows "cacheInv P (cacheContent P u f c st)"
proof -
  let ?k = "generateCacheKey u f"
  let ?e = "\<lparr>timestamp = dateNow P (world st), entry_content = c\<rparr>"
  let ?m = "mapSet ?k ?e (contentCache st)"
  have d: "distinct (map fst ?m)"
    using assms by (simp add: cacheInv_def mapSet_distinct)
  have ts: "\<forall>x \<in> set ?m. timestamp (snd x) \<le> dateNow P (world st)"
    using assms mapSet_entries [of _ ?k ?e "contentCache st"] by (fastforce simp: cacheInv_def)
  show ?thesis
  proof (cases "length ?m > maxCacheEntries")
    case False
    with d ts show ?thesis by (simp add: cacheInv_def cacheContent_def Let_def)
  next
    case True
    then have "?m \<noteq> []" by auto
    then obtain e where e: "(oldestKey ?m, e) \<in> set ?m"
      using oldestKey_present by blast
    have len: "length (mapDelete (oldestKey ?m) ?m) + 1 = length ?m"
      using mapDelete_filter [OF d e] by (rule conjunct2)
    have "length ?m \<le> Suc maxCacheEntries"
      using assms mapSet_length_le [of ?k ?e "contentCache st"] by (simp add: cacheInv_def)
    with len have "length (mapDelete (oldestKey ?m) ?m) \<le> maxCacheEntries" by simp
    moreover have "distinct (map fst (mapDelete (oldestKey ?m) ?m))"
      using d by (rule mapDelete_distinct)
    moreover have "\<forall>x \<in> set (mapDelete (oldestKey ?m) ?m). timestamp (snd x) \<le> dateNow P (world st)"
      using ts mapDelete_subset by fast
    ultimately show ?thesis
      using True by (simp add: cacheInv_def cacheContent_def Let_def)
  qed
qed

text \<open>
  The cache invariant holds of the empty cache and every call of \<open>extractContent\<close> keeps
  it, provided the clock does not run backwards while the request is in flight.
\<close>

lemma cacheInv_empty: "cacheInv P (st\<lparr>contentCache := []\<rparr>)"
  by (simp add: cacheInv_def)

lemma extractContent_inv:
  assumes "cacheInv P st"
    and "dateNow P (world st) \<le> dateNow P (snd (axiosGet P u (world st)))"
  shows "cacheInv P (snd (extractContent P u f st))"
proof -
  obtain r w1 where ax: "axiosGet P u (world st) = (r, w1)"
    by (cases "axiosGet P u (world st)")
  let ?s = "st\<lparr>world := w1, requests := requests st @ [u]\<rparr>"
  have s: "cacheInv P ?s"
    using assms ax by (fastforce simp: cacheInv_def)
  then have "cacheInv P (cacheContent P u f c ?s)" for c
    by (rule cacheContent_inv)
  with s assms(1) ax show ?thesis
    by (auto simp: extractContent_def split: option.splits sum.splits)
qed

text \<open>
  Claim C8: when a put leaves more entries in the cache than the maximum, exactly one entry
  is removed, and it is an entry whose timestamp is the least of all entries, the one just
  put included. The cache after the put is the list \<open>m\<close>; the timestamps are those of
  insertion, since a cache hit does not touch them.
\<close>

theorem cacheContent_evicts_oldest:
  assumes "distinct (map fst (contentCache st))"
    and "m = mapSet (generateCacheKey u f)
               \<lparr>timestamp = dateNow P (world st), entry_content = c\<rparr> (contentCache st)"
    and "length m > maxCacheEntries"
  shows "\<exists>k e. (k, e) \<in> set m
            \<and> (\<forall>x \<in> set m. timestamp e \<le> timestamp (snd x))
            \<and> contentCache (cacheContent P u f c st) = filter (\<lambda>x. x \<noteq> (k, e)) m
            \<and> length (contentCache (cacheContent P u f c st)) + 1 = length m"
proof -
  have ne: "m \<noteq> []" using assms(3) by auto
  have d: "distinct (map fst m)"
    unfolding assms(2) using assms(1) by (rule mapSet_distinct)
  obtain e where e: "(oldestKey m, e) \<in> set m" "\<forall>x \<in> set m. timestamp e \<le> timestamp (snd x)"
    using oldestKey_present [OF ne] by blast
  have c: "contentCache (cacheContent P u f c st) = mapDelete (oldestKey m) m"
    using assms(2,3) by (simp add: cacheContent_def Let_def)
  show ?thesis
    using mapDelete_filter [OF d e(1)] e c by metis
qed

lemma fullCache_distinct: "distinct (map fst fullCache)"
proof -
  have "map fst fullCache = map (\<lambda>i. replicate (Suc i) CHR ''k'') [0..<50]"
    by (simp add: fullCache_def comp_def)
  moreover have "inj_on (\<lambda>i. replicate (Suc i) CHR ''k'') (set [0..<50])"
    by (rule inj_onI) (metis length_replicate nat.inject)
  ultimately show ?thesis by (simp add: distinct_map)
qed

lemma fullCache_new_key: "generateCacheKey ''http://e.io/b'' Markdown \<notin> set (map fst fullCache)"
proof
  assume "generateCacheKey ''http://e.io/b'' Markdown \<in> set (map fst fullCache)"
  then obtain i where "generateCacheKey ''http://e.io/b'' Markdown = replicate (Suc i) CHR ''k''"
    by (auto simp: fullCache_def)
  then have "hd (generateCacheKey ''http://e.io/b'' Markdown) = CHR ''k''"
    by simp
  then show False by (simp add: generateCacheKey_def)
qed

text \<open>
  In the example the cache holds 50 entries stamped 0 to 49 and the clock reads 100: the
  put of a new key removes the entry stamped 0, the first one, and leaves 50 entries.
\<close>

lemma fullCache_evicts_first:
  "length (contentCache (cacheContent (examplePlatform exampleWeb) ''http://e.io/b'' Markdown
                           examplePage fullServices)) = 50
   \<and> map_of (contentCache (cacheContent (examplePlatform exampleWeb) ''http://e.io/b'' Markdown
                              examplePage fullServices)) ''k'' = None
   \<and> map_option timestamp (map_of fullCache ''k'') = Some 0"
  by code_simp

theorem cacheContent_evicts_oldest_witness:
  "length (fullCache @ [(generateCacheKey ''http://e.io/b'' Markdown,
                         \<lparr>timestamp = 100, entry_content = examplePage\<rparr>)]) > maxCacheEntries
   \<and> (\<exists>k e. (k, e) \<in> set (fullCache @ [(generateCacheKey ''http://e.io/b'' Markdown,
                                         \<lparr>timestamp = 100, entry_content = examplePage\<rparr>)])
          \<and> length (contentCache (cacheContent (examplePlatform exampleWeb) ''http://e.io/b''
                                     Markdown examplePage fullServices)) + 1
              = length (fullCache @ [(generateCacheKey ''http://e.io/b'' Markdown,
                                      \<lparr>timestamp = 100, entry_content = examplePage\<rparr>)]))
   \<and> map_of (contentCache (cacheContent (examplePlatform exampleWeb) ''http://e.io/b'' Markdown
                              examplePage fullServices)) ''k'' = None
   \<and> map_option timestamp (map_of fullCache ''k'') = Some 0"
proof -
  let ?P = "examplePlatform exampleWeb"
  let ?new = "(generateCacheKey ''http://e.io/b'' Markdown,
               \<lparr>timestamp = 100, entry_content = examplePage\<rparr>)"
  let ?m = "fullCache @ [?new]"
  have h1: "distinct (map fst (contentCache fullServices))"
    using fullCache_distinct by (simp add: fullServices_def)
  have h2: "?m = mapSet (generateCacheKey ''http://e.io/b'' Markdown)
                   \<lparr>timestamp = dateNow ?P (world fullServices), entry_content = examplePage\<rparr>
                   (contentCache fullServices)"
    using mapSet_new [OF fullCache_new_key]
    by (simp add: fullServices_def examplePlatform_def)
  have h3: "length ?m > maxCacheEntries"
    by (simp add: fullCache_def maxCacheEntries_def)
  have "\<exists>k e. (k, e) \<in> set ?m
          \<and> length (contentCache (cacheContent ?P ''http://e.io/b'' Markdown examplePage
                                     fullServices)) + 1 = length ?m"
    using cacheContent_evicts_oldest [OF h1 h2 h3] by blast
  with h3 fullCache_evicts_first show ?thesis by blast
qed

text \<open>
  Claim C7: a call of \<open>extractContent\<close> that misses the cache, fetches and builds the
  document makes one request; a second call for the same URL and output form, at any time
  less than the TTL after the entry was stamped, returns the same document and changes
  nothing: no request is made and the cache is as it was. The cache invariant is assumed
  before the first call, and the clock does not run backwards during the fetch.
\<close>

theorem second_extract_is_cache_hit:
  assumes valid: "isValidUrl P u"
    and miss: "cacheLookup P u f st = None"
    and fetch: "axiosGet P u (world st) = (Inr body, w1)"
    and build: "buildContent P u f body = Inr c"
    and inv: "cacheInv P st"
    and clock: "dateNow P (world st) \<le> dateNow P w1"
    and ttl: "dateNow P w2 - dateNow P w1 < cacheTTL"
    and st1: "st1 = snd (extractContent P u f st)"
  shows "extractContent P u f st = (Inr c, st1)
       \<and> requests st1 = requests st @ [u]
       \<and> extractContent P u f (st1\<lparr>world := w2\<rparr>) = (Inr c, st1\<lparr>world := w2\<rparr>)"
proof -
  let ?s = "st\<lparr>world := w1, requests := requests st @ [u]\<rparr>"
  have first: "extractContent P u f st = (Inr c, cacheContent P u f c ?s)"
    using valid miss fetch build by (simp add: extractContent_def)
  then have s1: "st1 = cacheContent P u f c ?s" by (simp add: st1)
  have req: "requests st1 = requests st @ [u]"
    by (simp add: s1 cacheContent_def Let_def)
  have old: "\<forall>x \<in> set (contentCache st). timestamp (snd x) \<le> dateNow P w1"
    using inv clock by (fastforce simp: cacheInv_def)
  have "map_of (contentCache (cacheContent P u f c ?s)) (generateCacheKey u f)
          = Some \<lparr>timestamp = dateNow P (world ?s), entry_content = c\<rparr>"
    using inv old by (intro cache_keeps_fresh_entry) (simp_all add: cacheInv_def)
  then have "cacheLookup P u f (st1\<lparr>world := w2\<rparr>) = Some c"
    using ttl by (simp add: cacheLookup_def s1 isCacheValid_def)
  then have "extractContent P u f (st1\<lparr>world := w2\<rparr>) = (Inr c, st1\<lparr>world := w2\<rparr>)"
    using valid by (simp add: extractContent_def)
  with first s1 req show ?thesis by simp
qed

theorem second_extract_is_cache_hit_witness:
  "requests (snd (extractContent (examplePlatform exampleWeb) ''http://e.io/b'' Markdown
                    emptyServices)) = [''http://e.io/b'']
   \<and> extractContent (examplePlatform exampleWeb) ''http://e.io/b'' Markdown
        ((snd (extractContent (examplePlatform exampleWeb) ''http://e.io/b'' Markdown
                 emptyServices))\<lparr>world := 1000\<rparr>)
      = (Inr examplePage,
         (snd (extractContent (examplePlatform exampleWeb) ''http://e.io/b'' Markdown
                 emptyServices))\<lparr>world := 1000\<rparr>)"
proof -
  let ?P = "examplePlatform exampleWeb"
  let ?u = "''http://e.io/b''"
  have h1: "isValidUrl ?P ?u"
    by (simp add: isValidUrl_def examplePlatform_def exampleHostname_def asciiLowerCase_def lowerChar_def)
  have h2: "cacheLookup ?P ?u Markdown emptyServices = None"
    by (simp add: cacheLookup_def emptyServices_def)
  have h3: "axiosGet ?P ?u (world emptyServices) = (Inr ?u, 1)"
    by (simp add: examplePlatform_def exampleWeb_def emptyServices_def)
  have h4: "buildContent ?P ?u Markdown ?u = Inr examplePage"
    by (simp add: examplePlatform_def exampleWeb_def examplePage_def)
  have h5: "cacheInv ?P emptyServices"
    by (simp add: cacheInv_def emptyServices_def)
  have h6: "dateNow ?P (world emptyServices) \<le> dateNow ?P 1"
    by (simp add: examplePlatform_def emptyServices_def)
  have h7: "dateNow ?P 1000 - dateNow ?P 1 < cacheTTL"
    by (simp add: examplePlatform_def cacheTTL_def)
  have h8: "requests emptyServices = []"
    by (simp add: emptyServices_def)
  show ?thesis
    using second_extract_is_cache_hit [OF h1 h2 h3 h4 h5 h6 h7 refl] h8 by simp
qed

text \<open>A hit returns the stored document and changes nothing, the timestamps included.\<close>

lemma cache_hit_changes_nothing:
  "isValidUrl P u \<Longrightarrow> cacheLookup P u f st = Some c \<Longrightarrow> extractContent P u f st = (Inr c, st)"
  by (simp add: extractContent_def)

text \<open>Whatever makes \<open>extractContent\<close> throw, the cache is as it was.\<close>

lemma failed_extract_leaves_cache:
  "fst (extractContent P u f st) = Inl err
     \<Longrightarrow> contentCache (snd (extractContent P u f st)) = contentCache st"
  by (auto simp: extractContent_def split: if_splits option.splits prod.splits sum.splits)

text \<open>
  Claim C9: when the fetch of an extraction fails, \<open>extractContent\<close> returns the error
  (an HTTP client error such as a timeout as \<open>Failed to fetch webpage: ...\<close>), and the
  cache after the call is the cache before it. The fetch is made only for a valid URL that
  missed the cache, so the cache holds no valid entry for the requested URL and output
  form, at the time of the call or at any later time; and where it held no entry at all
  under the key before the call, it holds none after it.
\<close>

theorem failed_fetch_leaves_cache:
  assumes valid: "isValidUrl P u"
    and miss: "cacheLookup P u f st = None"
    and fetch: "axiosGet P u (world st) = (Inl e, w1)"
  shows "fst (extractContent P u f st) = Inl (rethrow e)
       \<and> contentCache (snd (extractContent P u f st)) = contentCache st
       \<and> (\<forall>w. dateNow P (world st) \<le> dateNow P w \<longrightarrow>
              cacheLookup P u f ((snd (extractContent P u f st))\<lparr>world := w\<rparr>) = None)
       \<and> (map_of (contentCache st) (generateCacheKey u f) = None \<longrightarrow>
              map_of (contentCache (snd (extractContent P u f st))) (generateCacheKey u f) = None)"
proof -
  have r: "extractContent P u f st
             = (Inl (rethrow e), st\<lparr>world := w1, requests := requests st @ [u]\<rparr>)"
    using valid miss fetch by (simp add: extractContent_def)
  have "cacheLookup P u f (st\<lparr>world := w1, requests := requests st @ [u], world := w\<rparr>) = None"
    if "dateNow P (world st) \<le> dateNow P w" for w
    using miss that
    by (auto simp: cacheLookup_def isCacheValid_def split: option.splits if_splits)
  with r show ?thesis by simp
qed

theorem failed_fetch_leaves_cache_witness:
  "fst (extractContent (examplePlatform exampleWeb) ''http://e.io/slow'' Markdown emptyServices)
     = Inl (Error ''Failed to fetch webpage: timeout of 30000ms exceeded'')
   \<and> contentCache (snd (extractContent (examplePlatform exampleWeb) ''http://e.io/slow'' Markdown
                          emptyServices)) = []
   \<and> cacheLookup (examplePlatform exampleWeb) ''http://e.io/slow'' Markdown
        ((snd (extractContent (examplePlatform exampleWeb) ''http://e.io/slow'' Markdown
                 emptyServices))\<lparr>world := 5\<rparr>) = None
   \<and> map_of (contentCache (snd (extractContent (examplePlatform exampleWeb) ''http://e.io/slow''
                                   Markdown emptyServices)))
        (generateCacheKey ''http://e.io/slow'' Markdown) = None"
proof -
  let ?P = "examplePlatform exampleWeb"
  let ?u = "''http://e.io/slow''"
  have h1: "isValidUrl ?P ?u"
    by (simp add: isValidUrl_def examplePlatform_def exampleHostname_def asciiLowerCase_def lowerChar_def)
  have h2: "cacheLookup ?P ?u Markdown emptyServices = None"
    by (simp add: cacheLookup_def emptyServices_def)
  have h3: "axiosGet ?P ?u (world emptyServices)
              = (Inl (AxiosError ''timeout of 30000ms exceeded''), 1)"
    by (simp add: examplePlatform_def exampleWeb_def emptyServices_def)
  have h4: "dateNow ?P (world emptyServices) \<le> dateNow ?P 5"
    by (simp add: examplePlatform_def emptyServices_def)
  have h5: "rethrow (AxiosError ''timeout of 30000ms exceeded'')
              = Error ''Failed to fetch webpage: timeout of 30000ms exceeded''"
    by (simp add: rethrow_def)
  have h6: "contentCache emptyServices = []"
    by (simp add: emptyServices_def)
  show ?thesis
    using failed_fetch_leaves_cache [OF h1 h2 h3] h4 h5 h6 by simp
qed

section \<open>Properties of enhanced extraction\<close>

lemma no_links_nothing_selected:
  assumes "links c = []"
  shows "selectPageLinks P c options d = []" and "selectStartLinks P c u kws options n = []"
  using assms
  by (simp_all add: selectPageLinks_def selectStartLinks_def applyDomainFilter_def
      applyKeywordFilter_def sortByRelevance_def Let_def split: option.splits)

text \<open>
  Claim C10: when the base extraction of a URL succeeds, \<open>extractEnhancedContent\<close>
  returns a document whose base part is the base document, whatever the enhancement step
  does. If the enhancement step throws, the document returned has no links, no images and
  empty structured data, so that a traversal selects no link of that page, neither as a
  start page nor as a page reached on the way.
\<close>

theorem enhancement_failure_falls_back:
  assumes base: "extractContent P u f st = (Inr baseContent, st1)"
  shows "(\<exists>c st2. extractEnhancedContent P u f st = (Inr c, st2)
              \<and> WebpageContent.truncate c = baseContent)
       \<and> (\<forall>e w1. fetchEnhancements P baseContent u (world st1) = (Inl e, w1) \<longrightarrow>
            (\<exists>c. extractEnhancedContent P u f st = (Inr c, st1\<lparr>world := w1\<rparr>)
               \<and> WebpageContent.truncate c = baseContent
               \<and> links c = [] \<and> images c = [] \<and> structuredData c = emptyStructuredData
               \<and> (\<forall>options d. selectPageLinks P c options d = [])
               \<and> (\<forall>v kws options n. selectStartLinks P c v kws options n = [])))"
proof (intro conjI allI impI)
  show "\<exists>c st2. extractEnhancedContent P u f st = (Inr c, st2)
          \<and> WebpageContent.truncate c = baseContent"
    using base
    by (auto simp: extractEnhancedContent_def enhanceContent_def WebpageContent.truncate_def
        WebpageContent.extend_def split: prod.splits sum.splits)
next
  fix e w1
  assume fail: "fetchEnhancements P baseContent u (world st1) = (Inl e, w1)"
  let ?c = "WebpageContent.extend baseContent
              (EnhancedWebpageContent.fields [] [] emptyStructuredData (Some (dateNow P w1)) None)"
  have r: "extractEnhancedContent P u f st = (Inr ?c, st1\<lparr>world := w1\<rparr>)"
    using base fail by (simp add: extractEnhancedContent_def enhanceContent_def)
  have l: "links ?c = []" "images ?c = []" "structuredData ?c = emptyStructuredData"
    "WebpageContent.truncate ?c = baseContent"
    by (simp_all add: WebpageContent.truncate_def WebpageContent.extend_def
        EnhancedWebpageContent.fields_def)
  show "\<exists>c. extractEnhancedContent P u f st = (Inr c, st1\<lparr>world := w1\<rparr>)
          \<and> WebpageContent.truncate c = baseContent
          \<and> links c = [] \<and> images c = [] \<and> structuredData c = emptyStructuredData
          \<and> (\<forall>options d. selectPageLinks P c options d = [])
          \<and> (\<forall>v kws options n. selectStartLinks P c v kws options n = [])"
    using r l no_links_nothing_selected [OF l(1)] by blast
qed

theorem enhancement_failure_falls_back_witness:
  "(\<exists>c. fst (extractEnhancedContent brokenEnhancement ''http://e.io/a'' Markdown emptyServices)
            = Inr c
         \<and> WebpageContent.truncate c
            = \<lparr>url = ''http://e.io/a'', title = ''A'', description = [], content = [],
               format = Markdown, meta_tags = [], word_count = 0, approximate_chars = 0,
               first_500_chars = [], summary = [], headings = []\<rparr>
         \<and> links c = [] \<and> images c = [] \<and> structuredData c = emptyStructuredData)
   \<and> map_sum id navigationPath
        (fst (followLinks brokenEnhancement ''s1'' (exampleParams ''http://e.io/s'' 3 3)
                exampleServices))
      = Inr [''http://e.io/s'']"
proof -
  let ?u = "''http://e.io/a''"
  let ?base = "\<lparr>url = ?u, title = ''A'', description = [], content = [],
                format = Markdown, meta_tags = [], word_count = 0, approximate_chars = 0,
                first_500_chars = [], summary = [], headings = []\<rparr>"
  let ?st1 = "snd (extractContent brokenEnhancement ?u Markdown emptyServices)"
  have "fst (extractContent brokenEnhancement ?u Markdown emptyServices) = Inr ?base"
    by (simp add: extractContent_def brokenEnhancement_def examplePlatform_def exampleWeb_def
        isValidUrl_def exampleHostname_def asciiLowerCase_def lowerChar_def cacheLookup_def
        emptyServices_def)
  then have h1: "extractContent brokenEnhancement ?u Markdown emptyServices = (Inr ?base, ?st1)"
    by (simp add: prod_eq_iff)
  have h2: "fetchEnhancements brokenEnhancement ?base ?u (world ?st1)
              = (Inl (Error ''fetch failed''), world ?st1 + 1)"
    by (simp add: brokenEnhancement_def)
  have t: "map_sum id navigationPath
             (fst (followLinks brokenEnhancement ''s1'' (exampleParams ''http://e.io/s'' 3 3)
                     exampleServices))
           = Inr [''http://e.io/s'']"
    by code_simp
  from enhancement_failure_falls_back [OF h1] h2
  obtain c where "extractEnhancedContent brokenEnhancement ?u Markdown emptyServices
                    = (Inr c, ?st1\<lparr>world := world ?st1 + 1\<rparr>)"
    and "WebpageContent.truncate c = ?base"
    and "links c = []" and "images c = []" and "structuredData c = emptyStructuredData"
    by blast
  with t show ?thesis by auto
qed

section \<open>Properties of the traversal\<close>

lemma followLinks_of_traversal:
  "fst (followLinksTraversal P sid params st) = Inr t
     \<Longrightarrow> fst (followLinks P sid params st) = Inr (result t)"
  by (auto simp: followLinks_def split: prod.splits sum.splits)

lemma neverAgain_snoc:
  "neverAgain (l @ [(u, ok)]) = (neverAgain l \<and> (\<forall>x \<in> set l. snd x \<longrightarrow> fst x \<noteq> u))"
  by (induction l rule: neverAgain.induct) auto

lemma recordPage_inv:
  assumes "link_url link \<notin> visitedUrls t" and "traversalInv start t"
    and "recordPage P link options t = (r, t1)"
  shows "traversalInv start t1"
proof -
  have fresh: "\<forall>x \<in> set (loopExtractions t). snd x \<longrightarrow> fst x \<noteq> link_url link"
    using assms(1,2) by (auto simp: traversalInv_def)
  have ns: "link_url link \<noteq> start"
    using assms(1,2) by (auto simp: traversalInv_def)
  have np: "\<forall>p \<in> set (pagesVisited (result t)). pv_url p \<noteq> link_url link"
    using assms(1,2) by (auto simp: traversalInv_def)
  show ?thesis
    using assms(2,3) fresh ns np
    by (auto simp: recordPage_def traversalInv_def neverAgain_snoc Let_def
        split: prod.splits sum.splits) blast
qed

lemma trackVisit_inv: "traversalInv start t \<Longrightarrow> traversalInv start (trackVisit P sid u parent t)"
  by (simp add: trackVisit_def traversalInv_def)

lemma follow_inv:
  "traversalInv start t \<Longrightarrow> traversalInv start (followLinksRecursive P sid ls d options parent t)"
  "traversalInv start t \<Longrightarrow> traversalInv start (followLoop P sid ls d options parent t)"
proof (induction P sid ls d options parent t and P sid ls d options parent t
       rule: followLinksRecursive_followLoop.induct)
  case (1 P sessionId ls remainingDepth options parent t)
  then show ?case by simp
next
  case (2 P sessionId remainingDepth options parent t)
  then show ?case by simp
next
  case (3 P sessionId link rest remainingDepth options parent t)
  show ?case
  proof (cases "link_url link \<in> visitedUrls t")
    case True
    with 3 show ?thesis by simp
  next
    case False
    obtain r t1 where rp: "recordPage P link options t = (r, t1)"
      by (cases "recordPage P link options t")
    have inv1: "traversalInv start t1"
      using recordPage_inv [OF False "3.prems" rp] .
    show ?thesis
    proof (cases r)
      case None
      show ?thesis
        using "3.IH"(2) [OF False rp [symmetric] None inv1] False rp None by simp
    next
      case (Some c)
      let ?deep = "remainingDepth \<ge> 1 \<and> links c \<noteq> []
                     \<and> selectPageLinks P c options remainingDepth \<noteq> []"
      let ?t2 = "if ?deep
                 then followLinksRecursive P sessionId (selectPageLinks P c options remainingDepth)
                        (remainingDepth - 1) options (link_url link) t1
                 else t1"
      have inv2: "traversalInv start ?t2"
      proof (cases ?deep)
        case True
        then show ?thesis
          using "3.IH"(3) [OF False rp [symmetric] Some True inv1] by simp
      next
        case False
        then show ?thesis using inv1 by auto
      qed
      have inv3: "traversalInv start (trackVisit P sessionId (link_url link) parent ?t2)"
        using inv2 by (rule trackVisit_inv)
      show ?thesis
        using "3.IH"(4) [OF False rp [symmetric] Some inv3] False rp Some
        by simp
    qed
  qed
qed

text \<open>
  The state a returning call of \<open>followLinks\<close> ends in: the initial state, or the
  state the recursion leaves, with the related topics filled in.
\<close>

lemma traversal_shape:
  assumes "fst (followLinksTraversal P sid params st) = Inr t"
  shows "\<exists>c s. t = initialTraversal P (p_url params) c s
             \<or> (\<not> (depth params \<le> 0 \<or> maxLinksToFollow params \<le> 0)
                \<and> (\<exists>ls options tp.
                     t = (followLinksRecursive P sid ls (depth params - 1) options (p_url params)
                            (initialTraversal P (p_url params) c s))
                           \<lparr>result := (result (followLinksRecursive P sid ls (depth params - 1)
                                                 options (p_url params)
                                                 (initialTraversal P (p_url params) c s)))
                                         \<lparr>relatedTopics := tp\<rparr>\<rparr>))"
proof -
  let ?st1 = "case getSession P sid st of
                (Some session, s) \<Rightarrow> s
              | (None, s) \<Rightarrow>
                  snd (createSession P (map_option (joinWith '', '') (p_keywords params)) s)"
  obtain r2 st2 where e: "extractEnhancedContent P (p_url params) Markdown ?st1 = (r2, st2)"
    by (cases "extractEnhancedContent P (p_url params) Markdown ?st1")
  show ?thesis
  proof (cases r2)
    case (Inl err)
    with assms e show ?thesis
      by (simp add: followLinksTraversal_def Let_def del: followLinksRecursive.simps)
  next
    case (Inr c)
    obtain r3 st3 where v: "visitUrl P sid (p_url params) None st2 = (r3, st3)"
      by (cases "visitUrl P sid (p_url params) None st2")
    show ?thesis
    proof (cases r3)
      case (Inl err)
      with assms e Inr v show ?thesis
        by (simp add: followLinksTraversal_def Let_def del: followLinksRecursive.simps)
    next
      case (Inr vc)
      note r3 = this
      show ?thesis
      proof (cases "depth params \<le> 0 \<or> maxLinksToFollow params \<le> 0 \<or> links c = []")
        case True
        with assms e \<open>r2 = Inr c\<close> v r3 have "t = initialTraversal P (p_url params) c st3"
          by (auto simp: followLinksTraversal_def Let_def simp del: followLinksRecursive.simps
              split: if_splits)
        then show ?thesis by blast
      next
        case False
        let ?dm = "if stayOnDomain params = Some True
                   then map_option (\<lambda>h. [h]) (urlHostname P (p_url params)) else Some []"
        have "?dm \<noteq> None"
        proof
          assume "?dm = None"
          with assms e \<open>r2 = Inr c\<close> v r3 False show False
            by (simp add: followLinksTraversal_def Let_def del: followLinksRecursive.simps)
        qed
        then obtain domains where dm: "?dm = Some domains" by blast
        define options where "options =
          \<lparr>opt_followLinks = True, maxDepth = depth params, relevanceThreshold = 0.1,
           filterByKeywords = p_keywords params, excludeDomains = Some [],
           includeDomains = Some domains\<rparr>"
        define ls where "ls = selectStartLinks P c (p_url params) (p_keywords params) options
                                (maxLinksToFollow params)"
        define t1 where "t1 = followLinksRecursive P sid ls (depth params - 1) options
                                (p_url params) (initialTraversal P (p_url params) c st3)"
        have "t = t1\<lparr>result := (result t1)
                      \<lparr>relatedTopics := extractRelatedTopics P (pagesVisited (result t1))\<rparr>\<rparr>"
          using assms e \<open>r2 = Inr c\<close> v r3 False dm
          by (simp add: followLinksTraversal_def Let_def options_def ls_def t1_def
              del: followLinksRecursive.simps)
        then show ?thesis
          using False unfolding t1_def by blast
      qed
    qed
  qed
qed

text \<open>The two traversals of the example web that the examples below rest on.\<close>

lemma example_traversal_s:
  "map_sum id (\<lambda>t. (navigationPath (result t), loopExtractions t))
     (fst (followLinksTraversal (examplePlatform exampleWeb) ''s1''
             (exampleParams ''http://e.io/s'' 3 1) exampleServices))
   = Inr ([''http://e.io/s'', ''http://e.io/a'', ''http://e.io/b'', ''http://e.io/c''],
          [(''http://e.io/a'', True), (''http://e.io/b'', True), (''http://e.io/c'', True)])"
  by code_simp

lemma example_traversal_r:
  "map_sum id (\<lambda>t. (navigationPath (result t), loopExtractions t))
     (fst (followLinksTraversal (examplePlatform exampleWeb) ''s1''
             (exampleParams ''http://e.io/r'' 2 3) exampleServices))
   = Inr ([''http://e.io/r'', ''http://e.io/b''], [(''http://e.io/b'', True)])"
  by code_simp

lemma example_traversal_0:
  "map_sum id (\<lambda>t. map pv_title (pagesVisited (result t)))
     (fst (followLinksTraversal (examplePlatform exampleWeb) ''s1''
             (exampleParams ''http://e.io/s'' 0 3) exampleServices))
   = Inr [''S'']"
  by code_simp

lemma map_sum_Inr_D: "map_sum f g x = Inr v \<Longrightarrow> \<exists>t. x = Inr t \<and> g t = v"
  by (cases x) auto

text \<open>
  Claim C5: when \<open>followLinks\<close> is called with depth at most 0, or with at most 0 links
  to follow, and returns, the result has exactly one visited page, the start page with
  relevance 1, a navigation path of the start URL alone and no related topics; the loop
  extracted nothing and the visited set holds the start URL alone.
\<close>

theorem followLinks_without_depth:
  assumes "depth params \<le> 0 \<or> maxLinksToFollow params \<le> 0"
    and "fst (followLinksTraversal P sid params st) = Inr t"
  shows "fst (followLinks P sid params st) = Inr (result t)
       \<and> map pv_url (pagesVisited (result t)) = [p_url params]
       \<and> map relevance (pagesVisited (result t)) = [1]
       \<and> startUrl (result t) = p_url params
       \<and> navigationPath (result t) = [p_url params]
       \<and> relatedTopics (result t) = []
       \<and> loopExtractions t = []
       \<and> visitedUrls t = {p_url params}"
proof -
  have "fst (followLinks P sid params st) = Inr (result t)"
    using assms(2) by (rule followLinks_of_traversal)
  moreover have "map pv_url (pagesVisited (result t)) = [p_url params]
       \<and> map relevance (pagesVisited (result t)) = [1]
       \<and> startUrl (result t) = p_url params
       \<and> navigationPath (result t) = [p_url params]
       \<and> relatedTopics (result t) = []
       \<and> loopExtractions t = []
       \<and> visitedUrls t = {p_url params}"
    using traversal_shape [OF assms(2)] assms(1)
    by (auto simp: initialTraversal_def)
  ultimately show ?thesis by simp
qed

theorem followLinks_without_depth_witness:
  "\<exists>t. fst (followLinksTraversal (examplePlatform exampleWeb) ''s1''
              (exampleParams ''http://e.io/s'' 0 3) exampleServices) = Inr t
       \<and> map pv_title (pagesVisited (result t)) = [''S'']
       \<and> map pv_url (pagesVisited (result t)) = [''http://e.io/s'']
       \<and> map relevance (pagesVisited (result t)) = [1]
       \<and> navigationPath (result t) = [''http://e.io/s'']
       \<and> relatedTopics (result t) = []
       \<and> loopExtractions t = []"
proof -
  let ?params = "exampleParams ''http://e.io/s'' 0 3"
  obtain t where t: "fst (followLinksTraversal (examplePlatform exampleWeb) ''s1'' ?params
                            exampleServices) = Inr t"
      "map pv_title (pagesVisited (result t)) = [''S'']"
    using map_sum_Inr_D [OF example_traversal_0] by auto
  have h: "depth ?params \<le> 0 \<or> maxLinksToFollow ?params \<le> 0"
    by (simp add: exampleParams_def)
  have u: "p_url ?params = ''http://e.io/s''"
    by (simp add: exampleParams_def)
  show ?thesis
    using followLinks_without_depth [OF h t(1)] t u by auto
qed

text \<open>
  Claim C6, as stated, fails on the code. The loop of \<open>followLinksRecursive\<close> extracts
  a link's URL and adds it to the visited set, and at the end of the same iteration
  \<open>visitUrl\<close> extracts that URL again to record the visit in the session. In the
  example, after the loop's step for \<open>b\<close> the URL is in the visited set and the network
  has seen one request and one \<open>fetch\<close> for it; the recording adds a second
  \<open>fetch\<close>. Over the whole traversal from \<open>r\<close> both pages are fetched again after
  their first extraction.
\<close>

theorem visited_url_extracted_again:
  "(case recordPage (loggingPlatform exampleWeb) (mkLink ''http://e.io/b'' ''b'' [])
           exampleOptions loggedStart of
      (r, t1) \<Rightarrow>
        ''http://e.io/b'' \<in> visitedUrls t1
        \<and> world (services t1) = [''axios.get http://e.io/b'', ''fetch http://e.io/b'']
        \<and> world (services (trackVisit (loggingPlatform exampleWeb) ''s1'' ''http://e.io/b''
                                ''http://e.io/r'' t1))
            = [''axios.get http://e.io/b'', ''fetch http://e.io/b'', ''fetch http://e.io/b''])
   \<and> world (snd (followLinks (loggingPlatform exampleWeb) ''s1''
                     (exampleParams ''http://e.io/r'' 2 3) loggedServices))
       = [''axios.get http://e.io/r'', ''fetch http://e.io/r'', ''fetch http://e.io/r'',
          ''axios.get http://e.io/b'', ''fetch http://e.io/b'', ''fetch http://e.io/b'']"
  by code_simp

text \<open>
  Claim C6, amended: in the state a traversal call returns, no URL is in \<open>pagesVisited\<close>
  or in \<open>navigationPath\<close> twice, every page listed is in the visited set, and the loop
  of the traversal itself never extracts the start URL and never extracts a URL again once
  it has extracted it successfully and added it to the visited set, whatever duplicate
  links and links back to the start it meets. (The extraction that \<open>visitUrl\<close> makes
  when it records a visit is not counted by \<open>loopExtractions\<close>.)
\<close>

theorem traversal_never_revisits:
  assumes "fst (followLinksTraversal P sid params st) = Inr t"
  shows "fst (followLinks P sid params st) = Inr (result t)
       \<and> distinct (map pv_url (pagesVisited (result t)))
       \<and> distinct (navigationPath (result t))
       \<and> navigationPath (result t) = map pv_url (pagesVisited (result t))
       \<and> p_url params \<in> visitedUrls t
       \<and> (\<forall>p \<in> set (pagesVisited (result t)). pv_url p \<in> visitedUrls t)
       \<and> (\<forall>x \<in> set (loopExtractions t). snd x \<longrightarrow> fst x \<in> visitedUrls t)
       \<and> (\<forall>x \<in> set (loopExtractions t). fst x \<noteq> p_url params)
       \<and> neverAgain (loopExtractions t)"
proof -
  have inv0: "traversalInv (p_url params) (initialTraversal P (p_url params) c s)" for c s
    by (simp add: traversalInv_def initialTraversal_def)
  have "traversalInv (p_url params) t"
  proof -
    from traversal_shape [OF assms] obtain c s
      where "t = initialTraversal P (p_url params) c s
             \<or> (\<not> (depth params \<le> 0 \<or> maxLinksToFollow params \<le> 0)
                \<and> (\<exists>ls options tp.
                     t = (followLinksRecursive P sid ls (depth params - 1) options (p_url params)
                            (initialTraversal P (p_url params) c s))
                           \<lparr>result := (result (followLinksRecursive P sid ls (depth params - 1)
                                                 options (p_url params)
                                                 (initialTraversal P (p_url params) c s)))
                                         \<lparr>relatedTopics := tp\<rparr>\<rparr>))"
      by blast
    then show ?thesis
    proof
      assume "t = initialTraversal P (p_url params) c s"
      then show ?thesis using inv0 by simp
    next
      assume "\<not> (depth params \<le> 0 \<or> maxLinksToFollow params \<le> 0)
                \<and> (\<exists>ls options tp.
                     t = (followLinksRecursive P sid ls (depth params - 1) options (p_url params)
                            (initialTraversal P (p_url params) c s))
                           \<lparr>result := (result (followLinksRecursive P sid ls (depth params - 1)
                                                 options (p_url params)
                                                 (initialTraversal P (p_url params) c s)))
                                         \<lparr>relatedTopics := tp\<rparr>\<rparr>)"
      then obtain ls options tp
        where t: "t = (followLinksRecursive P sid ls (depth params - 1) options (p_url params)
                            (initialTraversal P (p_url params) c s))
                           \<lparr>result := (result (followLinksRecursive P sid ls (depth params - 1)
                                                 options (p_url params)
                                                 (initialTraversal P (p_url params) c s)))
                                         \<lparr>relatedTopics := tp\<rparr>\<rparr>"
        by blast
      have "traversalInv (p_url params)
              (followLinksRecursive P sid ls (depth params - 1) options (p_url params)
                 (initialTraversal P (p_url params) c s))"
        using inv0 by (rule follow_inv(1))
      then show ?thesis
        unfolding t by (simp add: traversalInv_def)
    qed
  qed
  then have "distinct (map pv_url (pagesVisited (result t)))
       \<and> distinct (navigationPath (result t))
       \<and> navigationPath (result t) = map pv_url (pagesVisited (result t))
       \<and> p_url params \<in> visitedUrls t
       \<and> (\<forall>p \<in> set (pagesVisited (result t)). pv_url p \<in> visitedUrls t)
       \<and> (\<forall>x \<in> set (loopExtractions t). snd x \<longrightarrow> fst x \<in> visitedUrls t)
       \<and> (\<forall>x \<in> set (loopExtractions t). fst x \<noteq> p_url params)
       \<and> neverAgain (loopExtractions t)"
    by (simp add: traversalInv_def)
  with followLinks_of_traversal [OF assms] show ?thesis by simp
qed

theorem traversal_never_revisits_witness:
  "\<exists>t. fst (followLinksTraversal (examplePlatform exampleWeb) ''s1''
              (exampleParams ''http://e.io/r'' 2 3) exampleServices) = Inr t
       \<and> navigationPath (result t) = [''http://e.io/r'', ''http://e.io/b'']
       \<and> loopExtractions t = [(''http://e.io/b'', True)]
       \<and> distinct (map pv_url (pagesVisited (result t)))
       \<and> map pv_url (pagesVisited (result t)) = [''http://e.io/r'', ''http://e.io/b'']
       \<and> neverAgain (loopExtractions t)"
proof -
  let ?params = "exampleParams ''http://e.io/r'' 2 3"
  obtain t where t: "fst (followLinksTraversal (examplePlatform exampleWeb) ''s1'' ?params
                            exampleServices) = Inr t"
      "(navigationPath (result t), loopExtractions t)
         = ([''http://e.io/r'', ''http://e.io/b''], [(''http://e.io/b'', True)])"
    using map_sum_Inr_D [OF example_traversal_r] by auto
  show ?thesis
    using traversal_never_revisits [OF t(1)] t by auto
qed

text \<open>
  Claim C1 does not hold of the code. \<open>followLinks\<close> creates a session when the session
  id is unknown, but the new session is stored under a fresh identifier, and the visit of
  the start page is then recorded under the id the caller gave: \<open>visitUrl\<close> finds no
  session there and throws. Here the store is empty and the start page can be extracted.
\<close>

theorem followLinks_unknown_session_fails:
  "fst (followLinks (examplePlatform exampleWeb) ''unknown'' (exampleParams ''http://e.io/s'' 1 1)
          emptyServices)
     = Inl (Error ''Session unknown not found'')
   \<and> sessions (snd (followLinks (examplePlatform exampleWeb) ''unknown''
                       (exampleParams ''http://e.io/s'' 1 1) emptyServices)) ''unknown'' = None
   \<and> map_option history
        (sessions (snd (followLinks (examplePlatform exampleWeb) ''unknown''
                          (exampleParams ''http://e.io/s'' 1 1) emptyServices)) ''generated-id'')
      = Some []"
  by code_simp

text \<open>
  The same for every platform and every store: with an unknown session id that the fresh
  identifier does not happen to equal, \<open>followLinks\<close> throws, and when the start page
  can be extracted what it throws is the session-not-found error.
\<close>

lemma extract_keeps_sessions:
  "sessions (snd (extractEnhancedContent P u f st)) = sessions st"
  by (auto simp: extractEnhancedContent_def extractContent_def enhanceContent_def
      cacheContent_def Let_def split: prod.splits sum.splits option.splits)

lemma followLinks_missing_session:
  assumes "sessions st sid = None" and "fst (uuidv4 P (world st)) \<noteq> sid"
  shows "fst (followLinks P sid params st)
           = (case fst (extractEnhancedContent P (p_url params) Markdown
                          (snd (createSession P
                                  (map_option (joinWith '', '') (p_keywords params)) st))) of
                Inl e \<Rightarrow> Inl e
              | Inr c \<Rightarrow> Inl (Error (''Session '' @ sid @ '' not found'')))"
proof -
  let ?st1 = "snd (createSession P (map_option (joinWith '', '') (p_keywords params)) st)"
  have g: "getSession P sid st = (None, st)"
    using assms(1) by (simp add: getSession_def)
  have s1: "sessions ?st1 sid = None"
    using assms by (auto simp: createSession_def Let_def split: prod.splits)
  obtain r st2 where e: "extractEnhancedContent P (p_url params) Markdown ?st1 = (r, st2)"
    by (cases "extractEnhancedContent P (p_url params) Markdown ?st1")
  have "sessions st2 sid = None"
    using extract_keeps_sessions [of P "p_url params" Markdown ?st1] e s1 by simp
  then have v: "fst (visitUrl P sid (p_url params) None st2)
                  = Inl (Error (''Session '' @ sid @ '' not found''))"
    by (simp add: visitUrl_def getSession_def)
  show ?thesis
    using g e v
    by (cases r)
       (auto simp: followLinks_def followLinksTraversal_def Let_def
          simp del: followLinksRecursive.simps split: prod.splits sum.splits)
qed

text \<open>
  Claim C3 does not hold of the code. The limit on the links handed to the next level is
  \<open>min 3 (max 1 (4 - remainingDepth))\<close>, which grows as the remaining depth shrinks: 2
  at remaining depth 2 and 3 at remaining depth 1. In the example, with depth 3 and one
  link to follow, the level at remaining depth 2 follows one link (to \<open>a\<close>) and the level
  below it, at remaining depth 1, follows two (to \<open>b\<close> and \<open>c\<close>).
\<close>

theorem deeper_level_follows_more_links:
  "deeperLinkLimit 2 = 2 \<and> deeperLinkLimit 1 = 3
   \<and> map_sum id navigationPath
        (fst (followLinks (examplePlatform exampleWeb) ''s1'' (exampleParams ''http://e.io/s'' 3 1)
                exampleServices))
      = Inr [''http://e.io/s'', ''http://e.io/a'', ''http://e.io/b'', ''http://e.io/c'']"
proof -
  obtain t where t: "fst (followLinksTraversal (examplePlatform exampleWeb) ''s1''
                            (exampleParams ''http://e.io/s'' 3 1) exampleServices) = Inr t"
      "navigationPath (result t)
         = [''http://e.io/s'', ''http://e.io/a'', ''http://e.io/b'', ''http://e.io/c'']"
    using map_sum_Inr_D [OF example_traversal_s] by auto
  show ?thesis
    using followLinks_of_traversal [OF t(1)] t(2) by (simp add: deeperLinkLimit_def)
qed

text \<open>The limit never shrinks as the remaining depth does, and it bounds what is selected.\<close>

lemma deeperLinkLimit_antitone: "a \<le> b \<Longrightarrow> deeperLinkLimit b \<le> deeperLinkLimit a"
  by (simp add: deeperLinkLimit_def)

lemma selectPageLinks_length:
  "int (length (selectPageLinks P c options d)) \<le> deeperLinkLimit d"
proof -
  have "length (selectPageLinks P c options d) \<le> nat (deeperLinkLimit d)"
    by (simp add: selectPageLinks_def Let_def)
  moreover have "0 \<le> deeperLinkLimit d"
    by (simp add: deeperLinkLimit_def)
  ultimately show ?thesis by linarith
qed

end
